theory Spec2Isabelle
  imports Complex_Main "HOL-Library.Multiset"
begin

section \<open>Hybrid search of the CDP support bot: \<^verbatim>\<open>app/services/search_service.py\<close>\<close>

text \<open>
  The theory embeds \<^verbatim>\<open>SearchService\<close>: score fusion (\<^verbatim>\<open>_combine_search_results\<close>),
  the semantic path over the FAISS index, the keyword path over Elasticsearch, the
  orchestration in \<^verbatim>\<open>search\<close> and \<^verbatim>\<open>index_document\<close>.

  Conventions of the embedding.
  \<^item> A float is the real number it denotes. The score conversion of the semantic
    path, which NumPy computes in float32, is modelled with its rounding (round to
    nearest, ties to even). The float64 products and sums of the fusion, the relevance
    scores of Elasticsearch and the distance computation inside FAISS are modelled
    exactly, without rounding.
  \<^item> An exception is a value \<open>Inl e\<close> of \<open>error + 'a\<close>; the source has no
    \<^verbatim>\<open>try\<close>, so every \<open>Inl\<close> is passed on unchanged.
  \<^item> A Python \<^verbatim>\<open>dict\<close> whose iteration order matters is an association list in
    insertion order.
  \<^item> \<^verbatim>\<open>await\<close> is sequencing: a coroutine that is awaited runs to its end before
    the next statement starts.
  \<^item> Names keep the source's spelling without the leading underscore; a parameter
    named \<^verbatim>\<open>platform\<close> is written \<open>plat\<close>, since \<open>platform\<close> is a field.
\<close>

subsection \<open>Schemas (\<^verbatim>\<open>app/schemas/search.py\<close>)\<close>

record SearchResult =
  content :: string
  platform :: string
  score :: real
  doc_type :: string
  section_label :: "string option"

record DocumentChunk =
  chunk_content :: string
  chunk_platform :: string
  chunk_doc_type :: string
  chunk_section :: "string option"
  chunk_title :: "string option"
  chunk_url :: "string option"

subsection \<open>Score fusion: \<^verbatim>\<open>_combine_search_results\<close>\<close>

text \<open>
  \<^verbatim>\<open>combined_scores\<close> maps a content string to \<^verbatim>\<open>{'result': r, 'score': x}\<close>;
  an entry is the pair \<open>(r, x)\<close>. Assigning to a key that is present replaces the value
  and keeps the key's place; assigning to a new key appends it.
\<close>

type_synonym entry = "SearchResult \<times> real"
type_synonym scores_dict = "(string \<times> entry) list"

fun dict_set :: "'k \<Rightarrow> 'v \<Rightarrow> ('k \<times> 'v) list \<Rightarrow> ('k \<times> 'v) list" where
  "dict_set k v [] = [(k, v)]"
| "dict_set k v (p # ps) = (if fst p = k then (k, v) # ps else p # dict_set k v ps)"

text \<open>First loop: \<^verbatim>\<open>for result in semantic_results: combined_scores[result.content] = ...\<close>\<close>

fun add_semantic :: "real \<Rightarrow> SearchResult list \<Rightarrow> scores_dict \<Rightarrow> scores_dict" where
  "add_semantic semantic_weight [] d = d"
| "add_semantic semantic_weight (r # rs) d =
     add_semantic semantic_weight rs
       (dict_set (content r) (r, score r * semantic_weight) d)"

text \<open>
  Second loop: a keyword result whose content is present adds to the stored score and
  leaves the stored result; otherwise it creates the entry.
\<close>

fun add_keyword :: "real \<Rightarrow> SearchResult list \<Rightarrow> scores_dict \<Rightarrow> scores_dict" where
  "add_keyword keyword_weight [] d = d"
| "add_keyword keyword_weight (r # rs) d =
     add_keyword keyword_weight rs
       (case map_of d (content r) of
          Some (res, sc) \<Rightarrow> dict_set (content r) (res, sc + score r * keyword_weight) d
        | None \<Rightarrow> dict_set (content r) (r, score r * keyword_weight) d)"

definition combined_scores ::
  "SearchResult list \<Rightarrow> SearchResult list \<Rightarrow> real \<Rightarrow> scores_dict" where
  "combined_scores semantic_results keyword_results semantic_weight =
     add_keyword (1 - semantic_weight) keyword_results
       (add_semantic semantic_weight semantic_results [])"

text \<open>
  \<^verbatim>\<open>sorted(values, key=score, reverse=True)\<close> is a stable sort by descending score
  (Python keeps the original order of equal keys also under \<^verbatim>\<open>reverse=True\<close>):
  the stable insertion sort \<open>sort_key\<close> on the negated score.
\<close>

definition sorted_results ::
  "SearchResult list \<Rightarrow> SearchResult list \<Rightarrow> real \<Rightarrow> entry list" where
  "sorted_results semantic_results keyword_results semantic_weight =
     sort_key (\<lambda>x. - snd x)
       (map snd (combined_scores semantic_results keyword_results semantic_weight))"

definition combine_search_results ::
  "SearchResult list \<Rightarrow> SearchResult list \<Rightarrow> real \<Rightarrow> SearchResult list" where
  "combine_search_results semantic_results keyword_results semantic_weight =
     map fst (sorted_results semantic_results keyword_results semantic_weight)"

text \<open>The accumulated score of a content string, when it has an entry.\<close>

definition accumulated ::
  "SearchResult list \<Rightarrow> SearchResult list \<Rightarrow> real \<Rightarrow> string \<Rightarrow> real option" where
  "accumulated semantic_results keyword_results semantic_weight c =
     map_option snd (map_of (combined_scores semantic_results keyword_results semantic_weight) c)"

subsection \<open>Distance to similarity\<close>

text \<open>
  \<^verbatim>\<open>score=1 / (1 + distance)\<close> in \<^verbatim>\<open>_semantic_search\<close>. The distance is a
  \<^verbatim>\<open>numpy.float32\<close> and the \<^verbatim>\<open>1\<close> a Python \<^verbatim>\<open>int\<close>, so both operations are
  float32 operations: the exact sum is rounded to float32, and the exact quotient of 1
  and the rounded sum is rounded again.

  Rounding to float32: the binary exponent \<open>e\<close> of the argument, kept within the
  exponents of float32 (down to \<open>-126\<close>, below which the numbers are subnormal, up to
  \<open>127\<close>), fixes the spacing \<open>pow2 (e - 23)\<close> of the floats around it; the argument is
  rounded to the nearest multiple of the spacing, a tie to the even multiple. Overflow
  is not modelled: the model is the program for arguments below \<open>pow2 128 - pow2 103\<close>
  in absolute value, which covers the sum and the quotient for every distance that the
  index returns with a position.
\<close>

definition round_even :: "real \<Rightarrow> int" where
  "round_even x =
     (let f = \<lfloor>x\<rfloor>; r = x - of_int f
      in if r < 1 / 2 then f else if 1 / 2 < r then f + 1 else if even f then f else f + 1)"

text \<open>How often \<open>x \<ge> 1\<close> is halved until it is below 2, at most \<open>n\<close> times.\<close>

fun halvings :: "nat \<Rightarrow> real \<Rightarrow> nat" where
  "halvings 0 x = 0"
| "halvings (Suc n) x = (if x < 2 then 0 else Suc (halvings n (x / 2)))"

text \<open>How often \<open>x < 1\<close> is doubled until it is at least 1, at most \<open>n\<close> times.\<close>

fun doublings :: "nat \<Rightarrow> real \<Rightarrow> nat" where
  "doublings 0 x = 0"
| "doublings (Suc n) x = (if 1 \<le> x then 0 else Suc (doublings n (2 * x)))"

definition pow2 :: "int \<Rightarrow> real" where
  "pow2 e = (if 0 \<le> e then 2 ^ nat e else 1 / 2 ^ nat (- e))"

definition exponent32 :: "real \<Rightarrow> int" where
  "exponent32 x =
     (if 1 \<le> \<bar>x\<bar> then int (halvings 127 \<bar>x\<bar>) else - int (doublings 126 \<bar>x\<bar>))"

definition fl32 :: "real \<Rightarrow> real" where
  "fl32 x = of_int (round_even (x / pow2 (exponent32 x - 23))) * pow2 (exponent32 x - 23)"

definition similarity :: "real \<Rightarrow> real" where
  "similarity distance = fl32 (1 / fl32 (1 + distance))"

subsection \<open>Exceptions\<close>

datatype error =
    NotFoundError
  | AssertionError
  | UpstreamError string

text \<open>
  \<open>NotFoundError\<close> is what the Elasticsearch client raises on status 404: from
  \<^verbatim>\<open>get\<close> when there is no document under the id, and from \<^verbatim>\<open>get\<close> and
  \<^verbatim>\<open>search\<close> when the index does not exist. \<open>AssertionError\<close> is what the checks of
  FAISS raise (the dimension of a vector, \<^verbatim>\<open>k > 0\<close>). \<open>UpstreamError\<close> stands for
  any exception that the encoder, the Elasticsearch query or the Elasticsearch write
  raises.
\<close>

subsection \<open>Collaborators: encoder, FAISS index, Elasticsearch\<close>

type_synonym vector = "real list"

text \<open>
  The body that \<^verbatim>\<open>index_document\<close> writes has always the same six keys, and the
  store is written by \<^verbatim>\<open>index_document\<close> only; a stored document is a record of them.
  The store maps the name of an index that exists to its documents by id. An index
  comes into existence with the first document written to it; nothing in the
  repository creates one otherwise.
\<close>

record es_source =
  src_content :: string
  src_platform :: string
  src_doc_type :: string
  src_section :: "string option"
  src_title :: "string option"
  src_url :: "string option"

type_synonym es_docs = "string \<rightharpoonup> es_source"
type_synonym es_store = "string \<rightharpoonup> es_docs"

text \<open>
  What the service cannot compute is a parameter: \<open>encode\<close> is the sentence
  encoder; \<open>es_rank docs query\<close> is the relevance ranking of Elasticsearch over the
  documents of an index for the \<^verbatim>\<open>bool\<close> query (match on content, phrase boosts on
  title and section), given as ids and scores, best first; \<open>es_write_error idx doc_id\<close>
  is the exception, if any, with which the write of a document fails. Each may raise.
\<close>

record environment =
  encode :: "string \<Rightarrow> error + vector"
  es_rank :: "es_docs \<Rightarrow> string \<Rightarrow> error + (string \<times> real) list"
  es_write_error :: "string \<Rightarrow> string \<Rightarrow> error option"

text \<open>
  The state of a \<^verbatim>\<open>SearchService\<close>: \<^verbatim>\<open>self.dimension\<close>, the vectors of
  \<^verbatim>\<open>self.index\<close> in insertion order (\<^verbatim>\<open>ntotal\<close> is their number), and the
  documents behind \<^verbatim>\<open>self.es\<close>.
\<close>

record SearchService =
  dimension :: nat
  index :: "vector list"
  es :: es_store

definition new_service :: "nat \<Rightarrow> SearchService" where
  "new_service vdim = \<lparr>dimension = vdim, index = [], es = Map.empty\<rparr>"

text \<open>
  \<^verbatim>\<open>str.lower()\<close> on ASCII letters. A \<open>string\<close> is a list of bytes, and a byte
  that is no ASCII capital is left as it is, where Python also lowers the capitals
  beyond ASCII: the model is the program on ASCII platform names. No statement below
  depends on which letters are lowered.
\<close>

definition lower_char :: "char \<Rightarrow> char" where
  "lower_char c =
     (case map_of (zip ''ABCDEFGHIJKLMNOPQRSTUVWXYZ'' ''abcdefghijklmnopqrstuvwxyz'') c of
        Some l \<Rightarrow> l
      | None \<Rightarrow> c)"

definition lower :: "string \<Rightarrow> string" where
  "lower s = map lower_char s"

text \<open>\<^verbatim>\<open>str(n)\<close>: the decimal digits of an integer.\<close>

definition digit_char :: "nat \<Rightarrow> char" where
  "digit_char n = ''0123456789'' ! n"

fun str_nat :: "nat \<Rightarrow> string" where
  "str_nat n = (if n < 10 then [digit_char n] else str_nat (n div 10) @ [digit_char (n mod 10)])"

declare str_nat.simps [simp del]

definition str_int :: "int \<Rightarrow> string" where
  "str_int i = (if i < 0 then CHR ''-'' # str_nat (nat (- i)) else str_nat (nat i))"

text \<open>
  \<^verbatim>\<open>faiss.IndexFlatL2\<close>: \<^verbatim>\<open>search\<close> asserts the dimension of the query and
  \<^verbatim>\<open>k > 0\<close>, and returns, for one query, \<open>k\<close> pairs of label and squared Euclidean
  distance, nearest first. A slot starts with the label \<open>-1\<close> and the distance
  \<open>FLT_MAX\<close>, and a vector enters only with a smaller distance: when fewer than \<open>k\<close>
  vectors do, the remaining slots keep the label \<open>-1\<close>. \<^verbatim>\<open>add\<close> asserts the dimension
  and appends, so a vector's label is its insertion position.
\<close>

definition FLT_MAX :: real where
  "FLT_MAX = 340282346638528859811704183484516925440"

definition l2_sqr :: "vector \<Rightarrow> vector \<Rightarrow> real" where
  "l2_sqr x y = sum_list (map (\<lambda>(a, b). (a - b)\<^sup>2) (zip x y))"

definition index_search ::
  "nat \<Rightarrow> vector list \<Rightarrow> vector \<Rightarrow> int \<Rightarrow> error + (int \<times> real) list" where
  "index_search vdim vecs q k =
     (if length q \<noteq> vdim \<or> k \<le> 0 then Inl AssertionError
      else let found = take (nat k) (sort_key snd
                 (filter (\<lambda>hit. snd hit < FLT_MAX)
                   (zip (map int [0..<length vecs]) (map (l2_sqr q) vecs))))
           in Inr (found @ replicate (nat k - length found) (- 1, FLT_MAX)))"

definition index_add :: "nat \<Rightarrow> vector list \<Rightarrow> vector \<Rightarrow> error + vector list" where
  "index_add vdim vecs v = (if length v \<noteq> vdim then Inl AssertionError else Inr (vecs @ [v]))"

text \<open>Elasticsearch: the index of a platform is \<^verbatim>\<open>f"{platform.lower()}_docs"\<close>.\<close>

definition index_name :: "string \<Rightarrow> string" where
  "index_name plat = lower plat @ ''_docs''"

text \<open>The document under an id in an index; none when the index does not exist.\<close>

definition es_doc :: "es_store \<Rightarrow> string \<Rightarrow> string \<Rightarrow> es_source option" where
  "es_doc store idx doc_id = (case store idx of None \<Rightarrow> None | Some docs \<Rightarrow> docs doc_id)"

text \<open>\<^verbatim>\<open>es.get(index, id)\<close> raises \<open>NotFoundError\<close> when there is no such document.\<close>

definition es_get :: "es_store \<Rightarrow> string \<Rightarrow> string \<Rightarrow> error + es_source" where
  "es_get store idx doc_id =
     (case es_doc store idx doc_id of None \<Rightarrow> Inl NotFoundError | Some src \<Rightarrow> Inr src)"

text \<open>
  \<^verbatim>\<open>es.index(index, id, document)\<close> raises what the environment says, and otherwise
  inserts or overwrites the document, creating the index when it does not exist.
\<close>

definition es_index ::
  "environment \<Rightarrow> es_store \<Rightarrow> string \<Rightarrow> string \<Rightarrow> es_source \<Rightarrow> error + es_store" where
  "es_index env store idx doc_id document =
     (case es_write_error env idx doc_id of
        Some e \<Rightarrow> Inl e
      | None \<Rightarrow>
          Inr (store(idx \<mapsto>
                 (case store idx of None \<Rightarrow> Map.empty | Some docs \<Rightarrow> docs)
                   (doc_id \<mapsto> document))))"

text \<open>
  \<^verbatim>\<open>es.search(index, query, size)\<close> raises \<open>NotFoundError\<close> when the index does not
  exist. Otherwise the ranking is the environment's; a hit carries the stored document,
  so only ids that the index holds give hits; the \<^verbatim>\<open>term\<close> clause keeps the documents
  whose platform field is the lowered platform; \<^verbatim>\<open>size\<close> caps the list.
\<close>

definition es_search ::
  "environment \<Rightarrow> es_store \<Rightarrow> string \<Rightarrow> string \<Rightarrow> string \<Rightarrow> int
     \<Rightarrow> error + (es_source \<times> real) list" where
  "es_search env store idx query platform_term sz =
     (case store idx of
        None \<Rightarrow> Inl NotFoundError
      | Some docs \<Rightarrow>
         (case es_rank env docs query of
            Inl e \<Rightarrow> Inl e
          | Inr ranked \<Rightarrow>
              Inr (take (nat sz)
                (filter (\<lambda>hit. src_platform (fst hit) = platform_term)
                  (List.map_filter
                     (\<lambda>(doc_id, sc). map_option (\<lambda>src. (src, sc)) (docs doc_id))
                     ranked)))))"

subsection \<open>The semantic path: \<^verbatim>\<open>_semantic_search\<close>\<close>

text \<open>
  The loop \<^verbatim>\<open>for idx, distance in zip(I[0], D[0])\<close>: a label other than \<open>-1\<close> is
  fetched with \<^verbatim>\<open>es.get\<close> under the id \<^verbatim>\<open>str(idx)\<close>, and what \<^verbatim>\<open>es.get\<close>
  raises leaves the loop. The stored document always has the keys \<^verbatim>\<open>doc_type\<close> and
  \<^verbatim>\<open>section\<close>, so the defaults of \<^verbatim>\<open>.get\<close> do not apply.
\<close>

fun semantic_loop :: "es_store \<Rightarrow> string \<Rightarrow> (int \<times> real) list \<Rightarrow> error + SearchResult list" where
  "semantic_loop store plat [] = Inr []"
| "semantic_loop store plat ((idx, distance) # rest) =
     (if idx \<noteq> - 1 then
        (case es_get store (index_name plat) (str_int idx) of
           Inl e \<Rightarrow> Inl e
         | Inr doc \<Rightarrow>
            (case semantic_loop store plat rest of
               Inl e \<Rightarrow> Inl e
             | Inr results \<Rightarrow>
                 Inr (\<lparr>content = src_content doc, platform = plat,
                       score = similarity distance, doc_type = src_doc_type doc,
                       section_label = src_section doc\<rparr> # results)))
      else semantic_loop store plat rest)"

definition semantic_search ::
  "SearchService \<Rightarrow> vector \<Rightarrow> string \<Rightarrow> int \<Rightarrow> error + SearchResult list" where
  "semantic_search svc query_embedding plat top_k =
     (case index_search (dimension svc) (index svc) query_embedding top_k of
        Inl e \<Rightarrow> Inl e
      | Inr hits \<Rightarrow> semantic_loop (es svc) plat hits)"

subsection \<open>The keyword path: \<^verbatim>\<open>_keyword_search\<close>\<close>

definition keyword_search ::
  "environment \<Rightarrow> SearchService \<Rightarrow> string \<Rightarrow> string \<Rightarrow> int \<Rightarrow> error + SearchResult list" where
  "keyword_search env svc query plat top_k =
     (case es_search env (es svc) (index_name plat) query (lower plat) top_k of
        Inl e \<Rightarrow> Inl e
      | Inr hits \<Rightarrow>
          Inr (map (\<lambda>(src, sc).
                 \<lparr>content = src_content src, platform = plat, score = sc,
                  doc_type = src_doc_type src, section_label = src_section src\<rparr>) hits))"

subsection \<open>\<^verbatim>\<open>search\<close>\<close>

text \<open>
  The encoder, then the awaited semantic search, then the awaited keyword search, then
  the fusion with the default \<^verbatim>\<open>semantic_weight=0.5\<close>.
\<close>

definition search ::
  "environment \<Rightarrow> SearchService \<Rightarrow> string \<Rightarrow> string \<Rightarrow> int \<Rightarrow> error + SearchResult list" where
  "search env svc query plat top_k =
     (case encode env query of
        Inl e \<Rightarrow> Inl e
      | Inr query_embedding \<Rightarrow>
         (case semantic_search svc query_embedding plat top_k of
            Inl e \<Rightarrow> Inl e
          | Inr semantic \<Rightarrow>
             (case keyword_search env svc query plat top_k of
                Inl e \<Rightarrow> Inl e
              | Inr keyword \<Rightarrow> Inr (combine_search_results semantic keyword (1 / 2)))))"

text \<open>
  The calls that \<^verbatim>\<open>search\<close> makes to its collaborators, in the order in which the
  program makes them.
\<close>

datatype call =
    Encode string
  | IndexSearch int
  | EsGet string string
  | EsSearch string string int

fun semantic_calls :: "es_store \<Rightarrow> string \<Rightarrow> (int \<times> real) list \<Rightarrow> call list" where
  "semantic_calls store plat [] = []"
| "semantic_calls store plat ((idx, distance) # rest) =
     (if idx \<noteq> - 1 then
        EsGet (index_name plat) (str_int idx) #
          (case es_get store (index_name plat) (str_int idx) of
             Inl e \<Rightarrow> []
           | Inr doc \<Rightarrow> semantic_calls store plat rest)
      else semantic_calls store plat rest)"

definition search_calls ::
  "environment \<Rightarrow> SearchService \<Rightarrow> string \<Rightarrow> string \<Rightarrow> int \<Rightarrow> call list" where
  "search_calls env svc query plat top_k =
     Encode query #
     (case encode env query of
        Inl e \<Rightarrow> []
      | Inr query_embedding \<Rightarrow>
          IndexSearch top_k #
          (case index_search (dimension svc) (index svc) query_embedding top_k of
             Inl e \<Rightarrow> []
           | Inr hits \<Rightarrow>
               semantic_calls (es svc) plat hits @
               (case semantic_loop (es svc) plat hits of
                  Inl e \<Rightarrow> []
                | Inr semantic \<Rightarrow> [EsSearch (index_name plat) query top_k])))"

subsection \<open>\<^verbatim>\<open>index_document\<close>\<close>

definition document_of :: "DocumentChunk \<Rightarrow> es_source" where
  "document_of doc =
     \<lparr>src_content = chunk_content doc, src_platform = lower (chunk_platform doc),
      src_doc_type = chunk_doc_type doc, src_section = chunk_section doc,
      src_title = chunk_title doc, src_url = chunk_url doc\<rparr>"

text \<open>
  \<^verbatim>\<open>self.index.add\<close>, then \<^verbatim>\<open>doc_id = str(self.index.ntotal - 1)\<close>, then
  \<^verbatim>\<open>self.es.index\<close>. The method mutates the service and returns nothing, or raises:
  the result is the exception, if any, and the service as the call leaves it. The
  encoder and the dimension check fail before anything is changed; when
  \<^verbatim>\<open>es.index\<close> raises, the vector has been added.
\<close>

definition index_document ::
  "environment \<Rightarrow> SearchService \<Rightarrow> DocumentChunk \<Rightarrow> error option \<times> SearchService" where
  "index_document env svc doc =
     (case encode env (chunk_content doc) of
        Inl e \<Rightarrow> (Some e, svc)
      | Inr embedding \<Rightarrow>
         (case index_add (dimension svc) (index svc) embedding of
            Inl e \<Rightarrow> (Some e, svc)
          | Inr vecs \<Rightarrow>
              let doc_id = str_int (int (length vecs) - 1)
              in (case es_index env (es svc) (index_name (chunk_platform doc)) doc_id
                         (document_of doc) of
                    Inl e \<Rightarrow> (Some e, svc\<lparr>index := vecs\<rparr>)
                  | Inr store \<Rightarrow> (None, svc\<lparr>index := vecs, es := store\<rparr>))))"

text \<open>Sequential calls of \<^verbatim>\<open>index_document\<close>, one per chunk; the first exception ends them.\<close>

fun index_documents ::
  "environment \<Rightarrow> SearchService \<Rightarrow> DocumentChunk list \<Rightarrow> error option \<times> SearchService" where
  "index_documents env svc [] = (None, svc)"
| "index_documents env svc (doc # docs) =
     (case index_document env svc doc of
        (Some e, svc') \<Rightarrow> (Some e, svc')
      | (None, svc') \<Rightarrow> index_documents env svc' docs)"

subsection \<open>Auxiliary notions for the proofs\<close>

text \<open>The keys of a dict are distinct, and each entry is filed under its result's content.\<close>

definition keyed :: "scores_dict \<Rightarrow> bool" where
  "keyed d \<longleftrightarrow> distinct (map fst d) \<and> (\<forall>(k, e) \<in> set d. content (fst e) = k)"

text \<open>The dict without its scores.\<close>

definition stored :: "scores_dict \<Rightarrow> (string \<times> SearchResult) list" where
  "stored d = map (\<lambda>p. (fst p, fst (snd p))) d"

text \<open>The elements of a list in the order of their first occurrence.\<close>

fun first_occurrences :: "'a list \<Rightarrow> 'a list" where
  "first_occurrences [] = []"
| "first_occurrences (x # xs) = x # filter (\<lambda>y. y \<noteq> x) (first_occurrences xs)"

subsection \<open>Concrete environments, chunks and results\<close>

text \<open>
  A toy encoder (the length of the text as a one-dimensional vector) and a ranking that
  gives the document with id \<open>0\<close> the score 3 when the index holds it and finds nothing
  otherwise; two environments in which a collaborator is down.
\<close>

definition env_up :: environment where
  "env_up = \<lparr>encode = (\<lambda>text. Inr [real (length text)]),
             es_rank = (\<lambda>docs query. Inr (if docs ''0'' = None then [] else [(''0'', 3)])),
             es_write_error = (\<lambda>idx doc_id. None)\<rparr>"

definition env_encoder_down :: environment where
  "env_encoder_down = \<lparr>encode = (\<lambda>text. Inl (UpstreamError ''encoder'')),
             es_rank = (\<lambda>docs query. Inr (if docs ''0'' = None then [] else [(''0'', 3)])),
             es_write_error = (\<lambda>idx doc_id. None)\<rparr>"

definition env_es_down :: environment where
  "env_es_down = \<lparr>encode = (\<lambda>text. Inr [real (length text)]),
             es_rank = (\<lambda>docs query. Inl (UpstreamError ''elasticsearch'')),
             es_write_error = (\<lambda>idx doc_id. Some (UpstreamError ''elasticsearch''))\<rparr>"

definition segment_chunk :: DocumentChunk where
  "segment_chunk = \<lparr>chunk_content = ''Go to Settings > Sources > Add Source'',
     chunk_platform = ''Segment'', chunk_doc_type = ''general'', chunk_section = None,
     chunk_title = None, chunk_url = None\<rparr>"

definition lytics_chunk :: DocumentChunk where
  "lytics_chunk = \<lparr>chunk_content = ''Track events with the Lytics tag'',
     chunk_platform = ''Lytics'', chunk_doc_type = ''general'', chunk_section = None,
     chunk_title = None, chunk_url = None\<rparr>"

text \<open>The service after \<open>segment_chunk\<close> has been indexed into a new one.\<close>

definition segment_service :: SearchService where
  "segment_service = \<lparr>dimension = 1, index = [[37]],
     es = [''segment_docs'' \<mapsto> [''0'' \<mapsto> document_of segment_chunk]]\<rparr>"

text \<open>The service after \<open>lytics_chunk\<close> has been indexed as well.\<close>

definition two_platform_service :: SearchService where
  "two_platform_service = \<lparr>dimension = 1, index = [[37], [32]],
     es = [''segment_docs'' \<mapsto> [''0'' \<mapsto> document_of segment_chunk],
           ''lytics_docs'' \<mapsto> [''1'' \<mapsto> document_of lytics_chunk]]\<rparr>"

text \<open>
  The service that a call of \<^verbatim>\<open>index_document\<close> leaves when \<^verbatim>\<open>es.index\<close> raises:
  the vector without a document.
\<close>

definition orphan_service :: SearchService where
  "orphan_service = \<lparr>dimension = 1, index = [[37]], es = Map.empty\<rparr>"


definition sem_a :: SearchResult where
  "sem_a = \<lparr>content = ''a'', platform = ''Segment'', score = 1 / 2, doc_type = ''general'',
     section_label = Some ''from the vector index''\<rparr>"

definition kw_a :: SearchResult where
  "kw_a = \<lparr>content = ''a'', platform = ''Segment'', score = 3, doc_type = ''general'',
     section_label = Some ''from the text query''\<rparr>"

definition kw_b :: SearchResult where
  "kw_b = \<lparr>content = ''b'', platform = ''Segment'', score = 2, doc_type = ''general'',
     section_label = None\<rparr>"

definition kw_c :: SearchResult where
  "kw_c = \<lparr>content = ''c'', platform = ''Segment'', score = 1 / 2, doc_type = ''general'',
     section_label = None\<rparr>"

lemmas example_defs = sem_a_def kw_a_def kw_b_def kw_c_def

lemmas fusion_defs = combine_search_results_def sorted_results_def combined_scores_def
  accumulated_def

section \<open>Facts about the fusion\<close>

subsection \<open>Assignment to a dict\<close>

lemma map_of_dict_set: "map_of (dict_set k v d) = (map_of d)(k \<mapsto> v)"
  by (induction d) (auto simp: fun_eq_iff)

lemma keys_dict_set:
  "map fst (dict_set k v d) = (if k \<in> set (map fst d) then map fst d else map fst d @ [k])"
  by (induction d) auto

lemma set_dict_set: "set (dict_set k v d) \<subseteq> insert (k, v) (set d)"
  by (induction d) auto

lemma dict_set_append: "k \<notin> fst ` set d \<Longrightarrow> dict_set k v (d @ e) = d @ dict_set k v e"
  by (induction d) auto

lemma dict_set_triv: "map_of d k = Some v \<Longrightarrow> dict_set k v d = d"
  by (induction d) (auto split: if_splits)

lemma filter_dict_set_other:
  "k \<notin> A \<Longrightarrow> filter (\<lambda>e. fst e \<in> A) (dict_set k v d) = filter (\<lambda>e. fst e \<in> A) d"
  by (induction d) auto

subsection \<open>Every entry is filed under its content\<close>

lemma keyed_Nil: "keyed []"
  by (simp add: keyed_def)

lemma keyed_dict_set: "keyed d \<Longrightarrow> content r = k \<Longrightarrow> keyed (dict_set k (r, x) d)"
  unfolding keyed_def using set_dict_set [of k "(r, x)" d]
  by (auto simp: keys_dict_set)

lemma keyed_lookup: "keyed d \<Longrightarrow> map_of d k = Some (r, x) \<Longrightarrow> content r = k"
  unfolding keyed_def by (auto dest!: map_of_SomeD)

lemma keyed_add_semantic: "keyed d \<Longrightarrow> keyed (add_semantic w rs d)"
  by (induction rs arbitrary: d) (auto intro: keyed_dict_set)

lemma keyed_add_keyword: "keyed d \<Longrightarrow> keyed (add_keyword w rs d)"
proof (induction rs arbitrary: d)
  case Nil
  then show ?case by simp
next
  case (Cons r rs)
  show ?case
  proof (cases "map_of d (content r)")
    case None
    with Cons show ?thesis by (simp add: keyed_dict_set)
  next
    case (Some e)
    obtain res sc where e: "e = (res, sc)" by (cases e)
    from Cons.prems Some e have "content res = content r" by (auto dest: keyed_lookup)
    with Cons Some e show ?thesis by (simp add: keyed_dict_set)
  qed
qed

lemma keyed_combined_scores: "keyed (combined_scores s k w)"
  by (simp add: combined_scores_def keyed_add_keyword keyed_add_semantic keyed_Nil)

subsection \<open>The stored results come from the two lists and do not depend on the weight\<close>

lemma results_add_semantic:
  "fst ` snd ` set (add_semantic w rs d) \<subseteq> set rs \<union> fst ` snd ` set d"
proof (induction rs arbitrary: d)
  case Nil show ?case by simp
next
  case (Cons r rs)
  have "fst ` snd ` set (dict_set (content r) (r, score r * w) d) \<subseteq> insert r (fst ` snd ` set d)"
    using set_dict_set [of "content r" "(r, score r * w)" d] by force
  with Cons.IH [of "dict_set (content r) (r, score r * w) d"] show ?case by auto
qed

lemma results_add_keyword:
  "fst ` snd ` set (add_keyword w rs d) \<subseteq> set rs \<union> fst ` snd ` set d"
proof (induction rs arbitrary: d)
  case Nil show ?case by simp
next
  case (Cons r rs)
  let ?d' = "case map_of d (content r) of
          Some (res, sc) \<Rightarrow> dict_set (content r) (res, sc + score r * w) d
        | None \<Rightarrow> dict_set (content r) (r, score r * w) d"
  have "fst ` snd ` set ?d' \<subseteq> insert r (fst ` snd ` set d)"
  proof (cases "map_of d (content r)")
    case None
    then show ?thesis using set_dict_set [of "content r" "(r, score r * w)" d] by force
  next
    case (Some e)
    obtain res sc where e: "e = (res, sc)" by (cases e)
    from Some e have "(content r, (res, sc)) \<in> set d" by (auto dest: map_of_SomeD)
    then have "res \<in> fst ` snd ` set d" by force
    then show ?thesis using Some e set_dict_set [of "content r" "(res, sc + score r * w)" d] by force
  qed
  with Cons.IH [of ?d'] show ?case by auto
qed

lemma results_combined_scores:
  "fst ` snd ` set (combined_scores s k w) \<subseteq> set s \<union> set k"
  unfolding combined_scores_def
  using results_add_keyword [of "1 - w" k "add_semantic w s []"] results_add_semantic [of w s "[]"]
  by auto

lemma set_combine: "set (combine_search_results s k w) = fst ` snd ` set (combined_scores s k w)"
  by (simp add: combine_search_results_def sorted_results_def image_image)

lemma stored_dict_set: "stored (dict_set k (r, x) d) = dict_set k r (stored d)"
  by (induction d) (auto simp: stored_def)

lemma map_of_stored: "map_of (stored d) k = map_option fst (map_of d k)"
  by (induction d) (auto simp: stored_def)

lemma stored_add_semantic:
  "stored d = stored d' \<Longrightarrow> stored (add_semantic w rs d) = stored (add_semantic w' rs d')"
  by (induction rs arbitrary: d d') (auto simp: stored_dict_set)

lemma stored_add_keyword:
  "stored d = stored d' \<Longrightarrow> stored (add_keyword w rs d) = stored (add_keyword w' rs d')"
proof (induction rs arbitrary: d d')
  case Nil
  then show ?case by simp
next
  case (Cons r rs)
  let ?step = "\<lambda>w d. case map_of d (content r) of
          Some (res, sc) \<Rightarrow> dict_set (content r) (res, sc + score r * w) d
        | None \<Rightarrow> dict_set (content r) (r, score r * w) d"
  have look: "map_option fst (map_of d (content r)) = map_option fst (map_of d' (content r))"
    using Cons.prems by (metis map_of_stored)
  have "stored (?step w d) = stored (?step w' d')"
    using look Cons.prems by (auto simp: stored_dict_set split: option.splits)
  then show ?case using Cons.IH [of "?step w d" "?step w' d'"] by simp
qed

lemma stored_combined_scores: "stored (combined_scores s k w) = stored (combined_scores s k w')"
  unfolding combined_scores_def by (intro stored_add_keyword stored_add_semantic) simp

lemma mset_combine:
  "mset (combine_search_results s k w) = mset (map snd (stored (combined_scores s k w)))"
  by (simp add: combine_search_results_def sorted_results_def stored_def multiset.map_comp comp_def)

subsection \<open>Insertion order\<close>

lemma set_first_occurrences: "set (first_occurrences xs) = set xs"
  by (induction xs) auto

lemma first_occurrences_append:
  "first_occurrences (xs @ ys) = first_occurrences xs @ filter (\<lambda>y. y \<notin> set xs) (first_occurrences ys)"
proof (induction xs)
  case Nil
  then show ?case by simp
next
  case (Cons x xs)
  then show ?case by (simp add: conj_commute)
qed

lemma first_occurrences_snoc:
  "first_occurrences (xs @ [k]) =
     (if k \<in> set xs then first_occurrences xs else first_occurrences xs @ [k])"
  by (simp add: first_occurrences_append)

lemma keys_add_semantic:
  "map fst d = first_occurrences xs \<Longrightarrow>
   map fst (add_semantic w rs d) = first_occurrences (xs @ map content rs)"
proof (induction rs arbitrary: d xs)
  case Nil
  then show ?case by simp
next
  case (Cons r rs)
  have "map fst (dict_set (content r) (r, score r * w) d) = first_occurrences (xs @ [content r])"
    using Cons.prems set_first_occurrences [of xs]
    by (simp add: keys_dict_set first_occurrences_snoc)
  from Cons.IH [OF this] show ?case by simp
qed

lemma keys_add_keyword:
  "map fst d = first_occurrences xs \<Longrightarrow>
   map fst (add_keyword w rs d) = first_occurrences (xs @ map content rs)"
proof (induction rs arbitrary: d xs)
  case Nil
  then show ?case by simp
next
  case (Cons r rs)
  let ?d' = "case map_of d (content r) of
          Some (res, sc) \<Rightarrow> dict_set (content r) (res, sc + score r * w) d
        | None \<Rightarrow> dict_set (content r) (r, score r * w) d"
  have "map fst ?d' = first_occurrences (xs @ [content r])"
    using Cons.prems set_first_occurrences [of xs]
    by (simp add: keys_dict_set first_occurrences_snoc split: option.splits prod.splits)
  from Cons.IH [OF this] show ?case by simp
qed

lemma keys_combined_scores:
  "map fst (combined_scores s k w) = first_occurrences (map content s @ map content k)"
proof -
  have "map fst (add_semantic w s []) = first_occurrences ([] @ map content s)"
    by (rule keys_add_semantic) simp
  then have "map fst (add_semantic w s []) = first_occurrences (map content s)" by simp
  then show ?thesis unfolding combined_scores_def by (rule keys_add_keyword)
qed

lemma keys_semantic: "fst ` set (add_semantic w s []) = content ` set s"
proof -
  have "map fst (add_semantic w s []) = first_occurrences ([] @ map content s)"
    by (rule keys_add_semantic) simp
  then have "set (map fst (add_semantic w s [])) = set (map content s)"
    by (simp add: set_first_occurrences)
  then show ?thesis by simp
qed

lemma keys_keyword: "fst ` set (add_keyword w k []) = content ` set k"
proof -
  have "map fst (add_keyword w k []) = first_occurrences ([] @ map content k)"
    by (rule keys_add_keyword) simp
  then have "set (map fst (add_keyword w k [])) = set (map content k)"
    by (simp add: set_first_occurrences)
  then show ?thesis by simp
qed

subsection \<open>The sort\<close>

lemma sorted_results_descending:
  "sorted_wrt (\<lambda>a b. snd b \<le> snd a) (sorted_results s k w)"
proof -
  have "sorted (map (\<lambda>x. - snd x) (sorted_results s k w))"
    unfolding sorted_results_def by (rule sorted_sort_key)
  then show ?thesis by (simp add: sorted_map)
qed

lemma sorted_results_stable:
  "filter (\<lambda>x. snd x = v) (sorted_results s k w) =
   filter (\<lambda>x. snd x = v) (map snd (combined_scores s k w))"
proof -
  have "filter (\<lambda>x. - snd x = - v) (sorted_results s k w) =
        filter (\<lambda>x. - snd x = - v) (map snd (combined_scores s k w))"
    unfolding sorted_results_def by (rule sort_key_stable)
  then show ?thesis by simp
qed

lemma filter_key_distinct:
  "distinct (map fst d) \<Longrightarrow>
   filter (\<lambda>e. fst e = c) d = (case map_of d c of None \<Rightarrow> [] | Some v \<Rightarrow> [(c, v)])"
proof (induction d)
  case Nil
  then show ?case by simp
next
  case (Cons p d)
  then show ?case
    by (cases p) (force simp: map_of_eq_None_iff split: option.splits dest: map_of_SomeD)
qed

lemma filter_results_keyed:
  "keyed d \<Longrightarrow>
   filter (\<lambda>x. P (content (fst x))) (map snd d) = map snd (filter (\<lambda>e. P (fst e)) d)"
  unfolding keyed_def by (induction d) auto

lemma filter_combine:
  "filter (\<lambda>x. P (content x)) (combine_search_results s k w) =
   map fst (sort_key (\<lambda>x. - snd x)
     (map snd (filter (\<lambda>e. P (fst e)) (combined_scores s k w))))"
proof -
  have "filter (\<lambda>x. P (content x)) (combine_search_results s k w) =
        map fst (filter (\<lambda>x. P (content (fst x))) (sorted_results s k w))"
    by (simp add: combine_search_results_def filter_map comp_def)
  also have "filter (\<lambda>x. P (content (fst x))) (sorted_results s k w) =
        sort_key (\<lambda>x. - snd x)
          (filter (\<lambda>x. P (content (fst x))) (map snd (combined_scores s k w)))"
    unfolding sorted_results_def by (rule filter_sort)
  also have "filter (\<lambda>x. P (content (fst x))) (map snd (combined_scores s k w)) =
        map snd (filter (\<lambda>e. P (fst e)) (combined_scores s k w))"
    by (rule filter_results_keyed) (rule keyed_combined_scores)
  finally show ?thesis .
qed

lemma filter_combine_content:
  "filter (\<lambda>x. content x = c) (combine_search_results s k w) =
     (case map_of (combined_scores s k w) c of None \<Rightarrow> [] | Some e \<Rightarrow> [fst e])"
proof -
  have "distinct (map fst (combined_scores s k w))"
    using keyed_combined_scores [of s k w] by (simp add: keyed_def)
  then show ?thesis
    by (simp add: filter_combine [of "\<lambda>k. k = c"] filter_key_distinct split: option.splits)
qed

lemma filter_all_keys: "fst ` set d \<subseteq> A \<Longrightarrow> filter (\<lambda>e. fst e \<in> A) d = d"
  by (induction d) auto

lemma filter_no_keys: "fst ` set d \<inter> A = {} \<Longrightarrow> filter (\<lambda>e. fst e \<in> A) d = []"
  by (induction d) auto


subsection \<open>The accumulated scores\<close>

lemma map_of_add_semantic:
  "map_of (add_semantic w rs d) c =
     (case filter (\<lambda>x. content x = c) rs of
        [] \<Rightarrow> map_of d c
      | _ \<Rightarrow> Some (last (filter (\<lambda>x. content x = c) rs),
                  score (last (filter (\<lambda>x. content x = c) rs)) * w))"
proof (induction rs arbitrary: d)
  case Nil
  then show ?case by simp
next
  case (Cons r rs)
  show ?case
    by (simp add: Cons.IH map_of_dict_set split: list.splits)
qed

lemma map_of_add_keyword:
  "map_of (add_keyword w rs d) c =
     (case filter (\<lambda>x. content x = c) rs of
        [] \<Rightarrow> map_of d c
      | r0 # _ \<Rightarrow>
         (case map_of d c of
            Some (res, sc) \<Rightarrow>
              Some (res, sc + sum_list (map score (filter (\<lambda>x. content x = c) rs)) * w)
          | None \<Rightarrow>
              Some (r0, sum_list (map score (filter (\<lambda>x. content x = c) rs)) * w)))"
proof (induction rs arbitrary: d)
  case Nil
  then show ?case by simp
next
  case (Cons r rs)
  show ?case
    by (simp add: Cons.IH map_of_dict_set algebra_simps split: list.splits option.splits prod.splits)
qed

lemma map_of_combined_scores_semantic:
  assumes "filter (\<lambda>x. content x = c) s \<noteq> []"
  shows "map_of (combined_scores s k w) c =
     Some (last (filter (\<lambda>x. content x = c) s),
           score (last (filter (\<lambda>x. content x = c) s)) * w +
           sum_list (map score (filter (\<lambda>x. content x = c) k)) * (1 - w))"
  using assms
  by (simp add: combined_scores_def map_of_add_keyword map_of_add_semantic split: list.splits)

lemma map_of_combined_scores_keyword:
  assumes "filter (\<lambda>x. content x = c) s = []"
  shows "map_of (combined_scores s k w) c =
     (case filter (\<lambda>x. content x = c) k of [] \<Rightarrow> None
      | r0 # _ \<Rightarrow> Some (r0, sum_list (map score (filter (\<lambda>x. content x = c) k)) * (1 - w)))"
  using assms
  by (simp add: combined_scores_def map_of_add_keyword map_of_add_semantic split: list.splits)

lemma in_contents_filter: "c \<in> content ` set s \<longleftrightarrow> filter (\<lambda>x. content x = c) s \<noteq> []"
  by (auto simp: filter_empty_conv)

lemma accumulated_weight_one:
  "accumulated s k 1 c =
     (if c \<in> content ` set s then accumulated s [] 1 c
      else if c \<in> content ` set k then Some 0 else None)"
proof (cases "filter (\<lambda>x. content x = c) s = []")
  case True
  then show ?thesis
    by (simp add: accumulated_def map_of_combined_scores_keyword in_contents_filter
        split: list.splits)
next
  case False
  then show ?thesis
    by (simp add: accumulated_def map_of_combined_scores_semantic in_contents_filter)
qed

lemma accumulated_weight_zero:
  "accumulated s k 0 c =
     (if c \<in> content ` set k then accumulated [] k 0 c
      else if c \<in> content ` set s then Some 0 else None)"
proof (cases "filter (\<lambda>x. content x = c) s = []")
  case True
  then show ?thesis
    by (simp add: accumulated_def map_of_combined_scores_keyword in_contents_filter
        split: list.splits)
next
  case False
  then show ?thesis
    by (simp add: accumulated_def map_of_combined_scores_semantic
        map_of_combined_scores_keyword in_contents_filter split: list.splits)
qed

subsection \<open>Weights 1 and 0, and lists without a common content\<close>

lemma filter_add_keyword_zero:
  "A \<subseteq> fst ` set d \<Longrightarrow>
   filter (\<lambda>e. fst e \<in> A) (add_keyword 0 rs d) = filter (\<lambda>e. fst e \<in> A) d"
proof (induction rs arbitrary: d)
  case Nil
  then show ?case by simp
next
  case (Cons r rs)
  show ?case
  proof (cases "map_of d (content r)")
    case None
    then have notin: "content r \<notin> A" using Cons.prems by (auto simp: map_of_eq_None_iff)
    let ?d' = "dict_set (content r) (r, 0) d"
    have "A \<subseteq> fst ` set ?d'"
      using Cons.prems keys_dict_set [of "content r" "(r, 0)" d]
      by (metis (no_types, lifting) list.set_map set_append subset_trans sup_ge1 order_refl)
    from Cons.IH [OF this] None notin show ?thesis
      by (simp add: filter_dict_set_other)
  next
    case (Some e)
    then have "dict_set (content r) e d = d" by (rule dict_set_triv)
    with Some Cons.IH [OF Cons.prems] show ?thesis by (cases e) simp
  qed
qed

lemma add_keyword_append:
  "fst ` set d \<inter> content ` set rs = {} \<Longrightarrow>
   add_keyword w rs (d @ e) = d @ add_keyword w rs e"
proof (induction rs arbitrary: e)
  case Nil
  then show ?case by simp
next
  case (Cons r rs)
  from Cons.prems have notin: "content r \<notin> fst ` set d" by auto
  then have "map_of d (content r) = None" by (simp add: map_of_eq_None_iff)
  then have look: "map_of (d @ e) (content r) = map_of e (content r)"
    by (simp add: map_add_def)
  from Cons.prems have disj: "fst ` set d \<inter> content ` set rs = {}" by auto
  show ?case
    by (simp add: look dict_set_append [OF notin] Cons.IH [OF disj] del: map_of_append
        split: option.splits)
qed

lemma combined_scores_no_keyword: "combined_scores s [] w = add_semantic w s []"
  by (simp add: combined_scores_def)

lemma combined_scores_no_semantic: "combined_scores [] k w = add_keyword (1 - w) k []"
  by (simp add: combined_scores_def)

lemma semantic_weight_one_ranking:
  "filter (\<lambda>x. content x \<in> content ` set s) (combine_search_results s k 1) =
   combine_search_results s [] 1"
proof -
  have "filter (\<lambda>e. fst e \<in> content ` set s) (combined_scores s k 1) = add_semantic 1 s []"
    unfolding combined_scores_def
    using filter_add_keyword_zero [of "content ` set s" "add_semantic 1 s []" k]
    by (simp add: keys_semantic filter_all_keys)
  then have "map fst (sort_key (\<lambda>x. - snd x)
      (map snd (filter (\<lambda>e. fst e \<in> content ` set s) (combined_scores s k 1)))) =
      combine_search_results s [] 1"
    by (simp add: combine_search_results_def sorted_results_def combined_scores_no_keyword)
  then show ?thesis
    by (simp only: filter_combine [of "\<lambda>c. c \<in> content ` set s"])
qed

lemma disjoint_keyword_ranking:
  assumes "content ` set s \<inter> content ` set k = {}"
  shows "filter (\<lambda>x. content x \<in> content ` set k) (combine_search_results s k w) =
         combine_search_results [] k w"
proof -
  have "combined_scores s k w = add_semantic w s [] @ add_keyword (1 - w) k []"
    unfolding combined_scores_def
    using add_keyword_append [of "add_semantic w s []" k "1 - w" "[]"] assms
    by (simp add: keys_semantic)
  then have "filter (\<lambda>e. fst e \<in> content ` set k) (combined_scores s k w) =
             add_keyword (1 - w) k []"
    using assms by (simp add: filter_all_keys filter_no_keys keys_semantic keys_keyword)
  then have "map fst (sort_key (\<lambda>x. - snd x)
      (map snd (filter (\<lambda>e. fst e \<in> content ` set k) (combined_scores s k w)))) =
      combine_search_results [] k w"
    by (simp add: combine_search_results_def sorted_results_def combined_scores_no_semantic)
  then show ?thesis
    by (simp only: filter_combine [of "\<lambda>c. c \<in> content ` set k"])
qed

section \<open>Facts about the service\<close>

subsection \<open>Rounding to float32\<close>

lemma halvings_numeral [simp]:
  "halvings (numeral k) x = (if x < 2 then 0 else Suc (halvings (pred_numeral k) (x / 2)))"
  by (simp add: numeral_eq_Suc)

lemma doublings_numeral [simp]:
  "doublings (numeral k) x = (if 1 \<le> x then 0 else Suc (doublings (pred_numeral k) (2 * x)))"
  by (simp add: numeral_eq_Suc)

lemma round_even_bounds: "\<lfloor>x\<rfloor> \<le> round_even x \<and> round_even x \<le> \<lfloor>x\<rfloor> + 1"
  by (simp add: round_even_def Let_def)

lemma round_even_of_int: "round_even (of_int k) = k"
  by (simp add: round_even_def)

lemma round_even_mono:
  assumes "x \<le> y"
  shows "round_even x \<le> round_even y"
proof (cases "\<lfloor>x\<rfloor> = \<lfloor>y\<rfloor>")
  case True
  with assms show ?thesis by (simp add: round_even_def Let_def)
next
  case False
  with assms have "\<lfloor>x\<rfloor> + 1 \<le> \<lfloor>y\<rfloor>" using floor_mono [of x y] by linarith
  with round_even_bounds [of x] round_even_bounds [of y] show ?thesis by linarith
qed

lemma round_even_le_int: "x \<le> of_int k \<Longrightarrow> round_even x \<le> k"
  using round_even_mono [of x "of_int k"] by (simp add: round_even_of_int)

lemma round_even_ge_int: "of_int k \<le> x \<Longrightarrow> k \<le> round_even x"
  using round_even_mono [of "of_int k" x] by (simp add: round_even_of_int)

lemma pow2_powi: "pow2 e = 2 powi e"
  by (simp add: pow2_def power_int_def power_one_over inverse_eq_divide)

lemma pow2_pos: "0 < pow2 e"
  by (simp add: pow2_powi)

lemma pow2_add: "pow2 (a + b) = pow2 a * pow2 b"
  by (simp add: pow2_powi power_int_add)

lemma pow2_mono: "a \<le> b \<Longrightarrow> pow2 a \<le> pow2 b"
  by (simp add: pow2_powi power_int_increasing)

lemma pow2_nat: "pow2 (int n) = 2 ^ n"
  by (simp add: pow2_def)

lemma pow2_neg_nat: "pow2 (- int n) = 1 / 2 ^ n"
  by (cases n) (simp_all add: pow2_def nat_add_distrib)

lemma halvings_lower: "1 \<le> x \<Longrightarrow> 2 ^ halvings n x \<le> x"
proof (induction n arbitrary: x)
  case 0
  then show ?case by simp
next
  case (Suc n)
  show ?case
  proof (cases "x < 2")
    case True
    with Suc.prems show ?thesis by simp
  next
    case False
    then have "1 \<le> x / 2" by simp
    from Suc.IH [OF this] False show ?thesis by simp
  qed
qed

lemma halvings_upper: "halvings n x < n \<Longrightarrow> x < 2 ^ Suc (halvings n x)"
proof (induction n arbitrary: x)
  case 0
  then show ?case by simp
next
  case (Suc n)
  show ?case
  proof (cases "x < 2")
    case True
    then show ?thesis by simp
  next
    case False
    with Suc.prems have "halvings n (x / 2) < n" by simp
    from Suc.IH [OF this] False show ?thesis by simp
  qed
qed

lemma halvings_mono: "x \<le> y \<Longrightarrow> halvings n x \<le> halvings n y"
  by (induction n arbitrary: x y) auto

lemma halvings_le: "halvings n x \<le> n"
  by (induction n arbitrary: x) auto

lemma doublings_lower: "doublings n x < n \<Longrightarrow> 1 \<le> x * 2 ^ doublings n x"
proof (induction n arbitrary: x)
  case 0
  then show ?case by simp
next
  case (Suc n)
  show ?case
  proof (cases "1 \<le> x")
    case True
    then show ?thesis by simp
  next
    case False
    with Suc.prems have "doublings n (2 * x) < n" by simp
    from Suc.IH [OF this] False show ?thesis by (simp add: mult.assoc mult.left_commute)
  qed
qed

lemma doublings_upper:
  "x < 1 \<Longrightarrow> \<exists>k. doublings (Suc n) x = Suc k \<and> x * 2 ^ k < 1"
proof (induction n arbitrary: x)
  case 0
  then show ?case by simp
next
  case (Suc n)
  show ?case
  proof (cases "2 * x < 1")
    case True
    from Suc.IH [OF this] obtain k where k: "doublings (Suc n) (2 * x) = Suc k" "2 * x * 2 ^ k < 1"
      by blast
    have "doublings (Suc (Suc n)) x = Suc (Suc k)"
      using Suc.prems k(1) by simp
    moreover have "x * 2 ^ Suc k < 1" using k(2) by (simp add: mult.assoc mult.left_commute)
    ultimately show ?thesis by blast
  next
    case False
    with Suc.prems have "doublings (Suc (Suc n)) x = Suc 0" by simp
    with Suc.prems show ?thesis by simp
  qed
qed

lemma doublings_antimono: "x \<le> y \<Longrightarrow> doublings n y \<le> doublings n x"
  by (induction n arbitrary: x y) auto

lemma doublings_le: "doublings n x \<le> n"
  by (induction n arbitrary: x) auto

lemma exponent32_range: "- 126 \<le> exponent32 x \<and> exponent32 x \<le> 127"
  using halvings_le [of 127 "\<bar>x\<bar>"] doublings_le [of 126 "\<bar>x\<bar>"]
  by (simp add: exponent32_def del: halvings_numeral doublings_numeral)

lemma exponent32_mono:
  assumes "0 \<le> x" and "x \<le> y"
  shows "exponent32 x \<le> exponent32 y"
proof (cases "1 \<le> x")
  case True
  with assms show ?thesis
    using halvings_mono [of x y 127]
    by (simp add: exponent32_def del: halvings_numeral doublings_numeral)
next
  case False
  show ?thesis
  proof (cases "1 \<le> y")
    case True
    with False assms show ?thesis
      by (simp add: exponent32_def del: halvings_numeral doublings_numeral)
  next
    case y: False
    with False assms show ?thesis
      using doublings_antimono [of x y 126]
      by (simp add: exponent32_def del: halvings_numeral doublings_numeral)
  qed
qed

lemma exponent32_upper:
  assumes "0 \<le> x" and "exponent32 x < 127"
  shows "x < pow2 (exponent32 x + 1)"
proof (cases "1 \<le> x")
  case True
  with assms have e: "exponent32 x = int (halvings 127 x)" and "halvings 127 x < 127"
    by (simp_all add: exponent32_def del: halvings_numeral doublings_numeral)
  from halvings_upper [OF this(2)] have "x < 2 ^ Suc (halvings 127 x)" .
  also have "\<dots> = pow2 (int (Suc (halvings 127 x)))" by (simp only: pow2_nat)
  finally show ?thesis by (simp add: e add.commute del: halvings_numeral)
next
  case False
  then have "x < 1" by simp
  from doublings_upper [OF this, of 125] obtain k
    where k: "doublings 126 x = Suc k" "x * 2 ^ k < 1"
    by (auto simp del: doublings_numeral doublings.simps)
  from False assms have e: "exponent32 x = - int (Suc k)"
    by (simp add: exponent32_def k del: halvings_numeral doublings_numeral)
  from k(2) have "x < 1 / 2 ^ k" by (simp add: field_simps)
  also have "\<dots> = pow2 (- int k)" by (simp only: pow2_neg_nat)
  finally show ?thesis by (simp add: e)
qed

lemma exponent32_lower:
  assumes "0 \<le> x" and "- 126 < exponent32 x"
  shows "pow2 (exponent32 x) \<le> x"
proof (cases "1 \<le> x")
  case True
  with assms have e: "exponent32 x = int (halvings 127 x)"
    by (simp add: exponent32_def del: halvings_numeral doublings_numeral)
  from halvings_lower [OF True, of 127] show ?thesis
    by (simp only: e pow2_nat)
next
  case False
  with assms have e: "exponent32 x = - int (doublings 126 x)"
    by (simp add: exponent32_def del: halvings_numeral doublings_numeral)
  with assms have "doublings 126 x < 126" by simp
  from doublings_lower [OF this] have "1 / 2 ^ doublings 126 x \<le> x"
    by (simp add: field_simps del: doublings_numeral)
  then show ?thesis by (simp only: e pow2_neg_nat)
qed

lemma pow2_24: "pow2 24 = of_int (2 ^ 24)"
  by (simp add: pow2_def)

lemma pow2_23: "pow2 23 = of_int (2 ^ 23)"
  by (simp add: pow2_def)

lemma fl32_le_pow2:
  assumes "0 \<le> x" and "exponent32 x < 127"
  shows "fl32 x \<le> pow2 (exponent32 x + 1)"
proof -
  let ?g = "pow2 (exponent32 x - 23)"
  have g: "0 < ?g" by (rule pow2_pos)
  have "24 + (exponent32 x - 23) = exponent32 x + 1" by simp
  then have split: "pow2 (exponent32 x + 1) = of_int (2 ^ 24) * ?g"
    using pow2_add [of 24 "exponent32 x - 23"] by (simp only: pow2_24)
  from exponent32_upper [OF assms] have "x \<le> of_int (2 ^ 24) * ?g"
    by (simp only: split)
  with g have "x / ?g \<le> of_int (2 ^ 24)" by (simp add: field_simps)
  then have "round_even (x / ?g) \<le> 2 ^ 24" by (rule round_even_le_int)
  then have "(of_int (round_even (x / ?g)) :: real) \<le> of_int (2 ^ 24)" by (simp only: of_int_le_iff)
  with g have "of_int (round_even (x / ?g)) * ?g \<le> of_int (2 ^ 24) * ?g"
    by (simp only: mult_le_cancel_right_pos)
  then show ?thesis by (simp only: fl32_def split)
qed

lemma fl32_ge_pow2:
  assumes "0 \<le> x" and "- 126 < exponent32 x"
  shows "pow2 (exponent32 x) \<le> fl32 x"
proof -
  let ?g = "pow2 (exponent32 x - 23)"
  have g: "0 < ?g" by (rule pow2_pos)
  have "23 + (exponent32 x - 23) = exponent32 x" by simp
  then have split: "pow2 (exponent32 x) = of_int (2 ^ 23) * ?g"
    using pow2_add [of 23 "exponent32 x - 23"] by (simp only: pow2_23)
  from exponent32_lower [OF assms] have "of_int (2 ^ 23) * ?g \<le> x"
    by (simp only: split)
  with g have "of_int (2 ^ 23) \<le> x / ?g" by (simp add: field_simps)
  then have "2 ^ 23 \<le> round_even (x / ?g)" by (rule round_even_ge_int)
  then have "(of_int (2 ^ 23) :: real) \<le> of_int (round_even (x / ?g))" by (simp only: of_int_le_iff)
  with g have "of_int (2 ^ 23) * ?g \<le> of_int (round_even (x / ?g)) * ?g"
    by (simp only: mult_le_cancel_right_pos)
  then show ?thesis by (simp only: fl32_def split)
qed

lemma fl32_mono:
  assumes "0 \<le> x" and "x \<le> y"
  shows "fl32 x \<le> fl32 y"
proof (cases "exponent32 x = exponent32 y")
  case True
  let ?g = "pow2 (exponent32 y - 23)"
  have g: "0 < ?g" by (rule pow2_pos)
  from assms g have "x / ?g \<le> y / ?g" by (simp add: divide_right_mono)
  then have "round_even (x / ?g) \<le> round_even (y / ?g)" by (rule round_even_mono)
  then have "(of_int (round_even (x / ?g)) :: real) \<le> of_int (round_even (y / ?g))"
    by (simp only: of_int_le_iff)
  with g have "of_int (round_even (x / ?g)) * ?g \<le> of_int (round_even (y / ?g)) * ?g"
    by (simp only: mult_le_cancel_right_pos)
  then show ?thesis by (simp only: fl32_def True)
next
  case False
  with exponent32_mono [OF assms] have lt: "exponent32 x < exponent32 y" by simp
  with exponent32_range [of y] have "exponent32 x < 127" by linarith
  from fl32_le_pow2 [OF assms(1) this] have a: "fl32 x \<le> pow2 (exponent32 x + 1)" .
  from lt exponent32_range [of x] have "- 126 < exponent32 y" by linarith
  moreover from assms have "0 \<le> y" by simp
  ultimately have b: "pow2 (exponent32 y) \<le> fl32 y" by (intro fl32_ge_pow2)
  from lt have "pow2 (exponent32 x + 1) \<le> pow2 (exponent32 y)" by (intro pow2_mono) simp
  with a b show ?thesis by linarith
qed

lemmas fl32_eval = fl32_def exponent32_def pow2_def round_even_def Let_def

lemma fl32_one: "fl32 1 = 1"
  by (simp add: fl32_eval)

lemma fl32_top: "fl32 (2 ^ 128) = 2 ^ 128"
  by (simp add: fl32_eval)

lemma fl32_tiny: "fl32 (1 / 2 ^ 128) = 1 / 2 ^ 128"
  by (simp add: fl32_eval)

lemma similarity_zero: "similarity 0 = 1"
  by (simp add: similarity_def fl32_one)

lemma fl32_sum_range:
  assumes "0 \<le> d" and "d < FLT_MAX"
  shows "1 \<le> fl32 (1 + d) \<and> fl32 (1 + d) \<le> 2 ^ 128"
proof -
  have "fl32 1 \<le> fl32 (1 + d)" using assms by (intro fl32_mono) simp_all
  moreover have "fl32 (1 + d) \<le> fl32 (2 ^ 128)"
    using assms by (intro fl32_mono) (simp_all add: FLT_MAX_def)
  ultimately show ?thesis unfolding fl32_one fl32_top by (rule conjI)
qed

lemma similarity_range:
  assumes "0 \<le> d" and "d < FLT_MAX"
  shows "0 < similarity d \<and> similarity d \<le> 1"
proof -
  let ?y = "fl32 (1 + d)"
  from fl32_sum_range [OF assms] have y: "1 \<le> ?y" "?y \<le> 2 ^ 128" by simp_all
  then have "1 / 2 ^ 128 \<le> 1 / ?y" by (simp add: field_simps)
  then have "fl32 (1 / 2 ^ 128) \<le> fl32 (1 / ?y)" by (intro fl32_mono) simp_all
  then have "1 / 2 ^ 128 \<le> fl32 (1 / ?y)" unfolding fl32_tiny .
  moreover have "(0::real) < 1 / 2 ^ 128" by simp
  ultimately have low: "0 < fl32 (1 / ?y)" by (rule less_le_trans [rotated])
  from y have "1 / ?y \<le> 1" by simp
  moreover from y have "0 \<le> 1 / ?y" by simp
  ultimately have "fl32 (1 / ?y) \<le> fl32 1" by (intro fl32_mono)
  with low show ?thesis by (simp add: similarity_def fl32_one)
qed

lemma similarity_antimono:
  assumes "0 \<le> d" and "d \<le> d'" and "d' < FLT_MAX"
  shows "similarity d' \<le> similarity d"
proof -
  from assms have d: "d < FLT_MAX" and d': "0 \<le> d'" by simp_all
  from fl32_sum_range [OF assms(1) d] have y: "1 \<le> fl32 (1 + d)" by simp
  have m: "fl32 (1 + d) \<le> fl32 (1 + d')" using assms by (intro fl32_mono) simp_all
  with y have "1 / fl32 (1 + d') \<le> 1 / fl32 (1 + d)" by (simp add: frac_le)
  moreover from y m have "0 \<le> 1 / fl32 (1 + d')" by simp
  ultimately show ?thesis unfolding similarity_def by (intro fl32_mono)
qed

subsection \<open>The error of the rounded score\<close>

lemma round_even_error: "\<bar>of_int (round_even t) - t\<bar> \<le> 1 / 2"
proof -
  have "of_int \<lfloor>t\<rfloor> \<le> t" and "t < of_int \<lfloor>t\<rfloor> + 1" by linarith+
  then show ?thesis by (auto simp: round_even_def Let_def)
qed

lemma fl32_error: "\<bar>fl32 x - x\<bar> \<le> pow2 (exponent32 x - 23) / 2"
proof -
  let ?g = "pow2 (exponent32 x - 23)"
  have g: "0 < ?g" by (rule pow2_pos)
  then have "fl32 x - x = (of_int (round_even (x / ?g)) - x / ?g) * ?g"
    by (simp add: fl32_def field_simps)
  then have "\<bar>fl32 x - x\<bar> = \<bar>of_int (round_even (x / ?g)) - x / ?g\<bar> * ?g"
    using g by (simp add: abs_mult)
  also have "\<dots> \<le> 1 / 2 * ?g"
    using round_even_error [of "x / ?g"] g by (intro mult_right_mono) simp_all
  finally show ?thesis by simp
qed

lemma exponent32_one: "exponent32 1 = 0"
  by (simp add: exponent32_def)

lemma pow2_minus_23: "pow2 (e - 23) = pow2 e / 2 ^ 23"
proof -
  have "pow2 (e + - 23) = pow2 e * pow2 (- 23)" by (rule pow2_add)
  moreover have "pow2 (- 23) = 1 / 2 ^ 23" by (simp add: pow2_def)
  ultimately show ?thesis by simp
qed

lemma fl32_sum_error:
  assumes "1 \<le> s"
  shows "\<bar>fl32 s - s\<bar> \<le> s / 2 ^ 24"
proof -
  from assms have "exponent32 1 \<le> exponent32 s" by (intro exponent32_mono) simp_all
  then have "- 126 < exponent32 s" by (simp add: exponent32_one)
  moreover from assms have "0 \<le> s" by simp
  ultimately have "pow2 (exponent32 s) \<le> s" by (intro exponent32_lower)
  then have "pow2 (exponent32 s - 23) / 2 \<le> s / 2 ^ 24"
    by (simp add: pow2_minus_23)
  with fl32_error [of s] show ?thesis by linarith
qed

lemma fl32_quotient_error:
  assumes "0 \<le> z" and "z \<le> 1"
  shows "\<bar>fl32 z - z\<bar> \<le> 1 / 2 ^ 24"
proof -
  from assms have "exponent32 z \<le> exponent32 1" by (intro exponent32_mono)
  then have "pow2 (exponent32 z) \<le> pow2 0" unfolding exponent32_one by (rule pow2_mono)
  then have "pow2 (exponent32 z) \<le> 1" by (simp add: pow2_def)
  then have "pow2 (exponent32 z - 23) / 2 \<le> 1 / 2 ^ 24"
    by (simp add: pow2_minus_23)
  with fl32_error [of z] show ?thesis by linarith
qed

lemma similarity_error:
  assumes "0 \<le> d" and "d < FLT_MAX"
  shows "\<bar>similarity d - 1 / (1 + d)\<bar> \<le> 1 / 2 ^ 23"
proof -
  let ?s = "1 + d" and ?y = "fl32 (1 + d)"
  from assms have s: "1 \<le> ?s" by simp
  from fl32_sum_range [OF assms] have y: "1 \<le> ?y" by simp
  have "1 / ?y - 1 / ?s = (?s - ?y) / (?y * ?s)"
    using s y by (simp add: field_simps)
  then have "\<bar>1 / ?y - 1 / ?s\<bar> = \<bar>?y - ?s\<bar> / (?y * ?s)"
    using s y by (simp add: abs_minus_commute)
  also have "\<dots> \<le> (?s / 2 ^ 24) / (?y * ?s)"
    using fl32_sum_error [OF s] s y by (intro divide_right_mono) simp_all
  also have "\<dots> = 1 / 2 ^ 24 / ?y" using s by simp
  also have "\<dots> \<le> 1 / 2 ^ 24" using y by (simp add: field_simps)
  finally have a: "\<bar>1 / ?y - 1 / ?s\<bar> \<le> 1 / 2 ^ 24" .
  from y have "0 \<le> 1 / ?y" and "1 / ?y \<le> 1" by simp_all
  then have b: "\<bar>fl32 (1 / ?y) - 1 / ?y\<bar> \<le> 1 / 2 ^ 24" by (rule fl32_quotient_error)
  have "(1::real) / 2 ^ 24 + 1 / 2 ^ 24 = 1 / 2 ^ 23" by simp
  with a b show ?thesis unfolding similarity_def by linarith
qed

subsection \<open>Where the score is 1\<close>

lemma fl32_one_plus: "fl32 (1 + 1 / 2 ^ 24) = 1"
  by (simp add: fl32_eval)

lemma similarity_one_below:
  assumes "0 \<le> d" and "d \<le> 1 / 2 ^ 24"
  shows "similarity d = 1"
proof -
  have "fl32 1 \<le> fl32 (1 + d)" using assms by (intro fl32_mono) simp_all
  moreover have "fl32 (1 + d) \<le> fl32 (1 + 1 / 2 ^ 24)" using assms by (intro fl32_mono) simp_all
  ultimately have "fl32 (1 + d) = 1" unfolding fl32_one fl32_one_plus by (rule antisym [rotated])
  then show ?thesis by (simp add: similarity_def fl32_one)
qed

lemma similarity_step: "similarity (1 / 2 ^ 23) = 8388607 / 8388608"
  by (simp add: similarity_def fl32_eval)

lemma similarity_below_one:
  assumes "1 / 2 ^ 23 \<le> d" and "d < FLT_MAX"
  shows "similarity d < 1"
proof -
  have "similarity d \<le> similarity (1 / 2 ^ 23)"
    using assms by (intro similarity_antimono) simp_all
  then show ?thesis unfolding similarity_step by simp
qed

subsection \<open>Decimal strings are injective\<close>

lemma digit_char_inj: "a < 10 \<Longrightarrow> b < 10 \<Longrightarrow> digit_char a = digit_char b \<Longrightarrow> a = b"
proof -
  assume a: "a < 10" and b: "b < 10" and eq: "digit_char a = digit_char b"
  from a have "a \<in> {0,1,2,3,4,5,6,7,8,9}" by auto
  moreover from b have "b \<in> {0,1,2,3,4,5,6,7,8,9}" by auto
  ultimately show "a = b" using eq
    by (auto simp: digit_char_def)
qed

lemma str_nat_nonempty: "str_nat n \<noteq> []"
  by (subst str_nat.simps) simp

lemma str_nat_length_one: "length (str_nat n) = 1 \<longleftrightarrow> n < 10"
  by (subst str_nat.simps) (simp add: str_nat_nonempty)

lemma str_nat_inj: "str_nat a = str_nat b \<Longrightarrow> a = b"
proof (induction a arbitrary: b rule: str_nat.induct)
  case (1 a)
  show ?case
  proof (cases "a < 10")
    case True
    with "1.prems" have "b < 10"
      using str_nat_length_one [of a] str_nat_length_one [of b] by simp
    with True "1.prems" show ?thesis
      by (simp add: str_nat.simps [of a] str_nat.simps [of b] digit_char_inj)
  next
    case False
    with "1.prems" have b: "\<not> b < 10"
      using str_nat_length_one [of a] str_nat_length_one [of b] by simp
    from "1.prems" False b
    have "str_nat (a div 10) @ [digit_char (a mod 10)] = str_nat (b div 10) @ [digit_char (b mod 10)]"
      by (simp add: str_nat.simps [of a] str_nat.simps [of b])
    then have p: "str_nat (a div 10) = str_nat (b div 10)"
      and l: "digit_char (a mod 10) = digit_char (b mod 10)" by simp_all
    from "1.IH" [OF False p] have "a div 10 = b div 10" .
    moreover from l have "a mod 10 = b mod 10" by (intro digit_char_inj) simp_all
    ultimately show ?thesis by (metis div_mult_mod_eq)
  qed
qed

lemma str_int_nat_inj: "str_int (int a) = str_int (int b) \<Longrightarrow> a = b"
  by (simp add: str_int_def str_nat_inj)

subsection \<open>The flat index\<close>

lemma l2_sqr_nonneg: "0 \<le> l2_sqr x y"
  unfolding l2_sqr_def by (rule sum_list_nonneg) auto

lemma index_search_labels:
  assumes "index_search vdim vecs q k = Inr hits" and "(i, dst) \<in> set hits"
  shows "i = - 1 \<or>
         (\<exists>j < length vecs. i = int j \<and> dst = l2_sqr q (vecs ! j) \<and> dst < FLT_MAX)"
proof -
  let ?all = "zip (map int [0..<length vecs]) (map (l2_sqr q) vecs)"
  let ?found = "take (nat k) (sort_key snd (filter (\<lambda>hit. snd hit < FLT_MAX) ?all))"
  from assms(1) have hits: "hits = ?found @ replicate (nat k - length ?found) (- 1, FLT_MAX)"
    by (simp add: index_search_def Let_def split: if_splits)
  show ?thesis
  proof (cases "(i, dst) \<in> set ?found")
    case True
    then have "(i, dst) \<in> set (filter (\<lambda>hit. snd hit < FLT_MAX) ?all)"
      by (auto dest: in_set_takeD)
    then have "(i, dst) \<in> set ?all" and "dst < FLT_MAX" by simp_all
    then obtain j where "j < length vecs" "i = int j" "dst = l2_sqr q (vecs ! j)"
      by (auto simp: set_zip)
    with \<open>dst < FLT_MAX\<close> show ?thesis by blast
  next
    case False
    with assms(2) hits
    have "(i, dst) \<in> set (replicate (nat k - length ?found) (- 1, FLT_MAX))"
      by auto
    then show ?thesis by auto
  qed
qed

lemma index_search_distance:
  assumes "index_search vdim vecs q k = Inr hits" and "(i, dst) \<in> set hits" and "i \<noteq> - 1"
  shows "0 \<le> dst \<and> dst < FLT_MAX"
  using index_search_labels [OF assms(1,2)] assms(3) l2_sqr_nonneg by auto



subsection \<open>The loop of the semantic path\<close>


lemma semantic_loop_stale:
  "(P, dst) \<in> set hits \<Longrightarrow> P \<noteq> - 1 \<Longrightarrow> es_doc store (index_name plat) (str_int P) = None \<Longrightarrow>
   semantic_loop store plat hits = Inl NotFoundError"
proof (induction hits)
  case Nil
  then show ?case by simp
next
  case (Cons h hits)
  obtain idx distance where h: "h = (idx, distance)" by (cases h)
  show ?case
  proof (cases "idx \<noteq> - 1 \<and> es_doc store (index_name plat) (str_int idx) = None")
    case True
    then show ?thesis by (simp add: h es_get_def)
  next
    case False
    with Cons.prems h have "(P, dst) \<in> set hits" by auto
    with Cons have "semantic_loop store plat hits = Inl NotFoundError" by simp
    then show ?thesis by (simp add: h es_get_def split: option.splits)
  qed
qed

lemma semantic_loop_scores:
  "semantic_loop store plat hits = Inr results \<Longrightarrow>
   map score results = map (\<lambda>hit. similarity (snd hit)) (filter (\<lambda>hit. fst hit \<noteq> - 1) hits)"
proof (induction hits arbitrary: results)
  case Nil
  then show ?case by simp
next
  case (Cons h hits)
  obtain idx distance where h: "h = (idx, distance)" by (cases h)
  from Cons.prems Cons.IH show ?case
    by (auto simp: h split: if_splits sum.splits)
qed

subsection \<open>The keyword query\<close>



subsection \<open>Indexing\<close>

text \<open>The store after a write that does not raise.\<close>

lemma es_index_written:
  assumes "es_index env store idx doc_id document = Inr store'"
  shows "es_doc store' idx' doc_id' =
     (if idx' = idx \<and> doc_id' = doc_id then Some document else es_doc store idx' doc_id')"
proof (cases "es_write_error env idx doc_id")
  case None
  with assms have "store' = store(idx \<mapsto>
      (case store idx of None \<Rightarrow> Map.empty | Some docs \<Rightarrow> docs)(doc_id \<mapsto> document))"
    by (simp add: es_index_def)
  then show ?thesis by (auto simp: es_doc_def split: option.splits)
next
  case (Some e)
  with assms show ?thesis by (simp add: es_index_def)
qed

lemma index_document_returned:
  assumes "index_document env svc doc = (None, svc')"
  shows "\<exists>v. encode env (chunk_content doc) = Inr v \<and> length v = dimension svc \<and>
           dimension svc' = dimension svc \<and> index svc' = index svc @ [v] \<and>
           (\<forall>idx doc_id. es_doc (es svc') idx doc_id =
              (if idx = index_name (chunk_platform doc) \<and>
                  doc_id = str_int (int (length (index svc)))
               then Some (document_of doc) else es_doc (es svc) idx doc_id))"
proof -
  from assms obtain v store' where v: "encode env (chunk_content doc) = Inr v"
    and len: "length v = dimension svc"
    and wr: "es_index env (es svc) (index_name (chunk_platform doc))
               (str_int (int (length (index svc)))) (document_of doc) = Inr store'"
    and svc': "svc' = svc\<lparr>index := index svc @ [v], es := store'\<rparr>"
    by (auto simp: index_document_def index_add_def Let_def split: sum.splits if_splits)
  from es_index_written [OF wr] v len svc' show ?thesis by simp
qed

lemma index_document_returns:
  assumes "encode env (chunk_content doc) = Inr v" and "length v = dimension svc"
    and "es_write_error env (index_name (chunk_platform doc))
           (str_int (int (length (index svc)))) = None"
  shows "\<exists>svc'. index_document env svc doc = (None, svc')"
  using assms
  by (simp add: index_document_def index_add_def es_index_def Let_def)

lemma index_document_orphan:
  assumes "encode env (chunk_content doc) = Inr v" and "length v = dimension svc"
    and "es_write_error env (index_name (chunk_platform doc))
           (str_int (int (length (index svc)))) = Some e"
  shows "index_document env svc doc = (Some e, svc\<lparr>index := index svc @ [v]\<rparr>)"
  using assms
  by (simp add: index_document_def index_add_def es_index_def Let_def)

lemma index_documents_returns:
  assumes "\<forall>doc \<in> set docs. \<exists>v. encode env (chunk_content doc) = Inr v \<and> length v = dimension svc"
    and "\<forall>idx doc_id. es_write_error env idx doc_id = None"
  shows "fst (index_documents env svc docs) = None"
  using assms(1)
proof (induction docs arbitrary: svc)
  case Nil
  then show ?case by simp
next
  case (Cons doc docs)
  from Cons.prems obtain v
    where v: "encode env (chunk_content doc) = Inr v" "length v = dimension svc"
    by auto
  from index_document_returns [OF v] assms(2) obtain svc1
    where step: "index_document env svc doc = (None, svc1)" by auto
  from index_document_returned [OF step] have "dimension svc1 = dimension svc" by auto
  with Cons.prems
  have "\<forall>doc \<in> set docs. \<exists>v. encode env (chunk_content doc) = Inr v \<and> length v = dimension svc1"
    by simp
  from Cons.IH [OF this] step show ?case by simp
qed

lemma index_documents_positions:
  assumes "index_documents env svc docs = (None, svc')"
  shows "dimension svc' = dimension svc \<and>
         length (index svc') = length (index svc) + length docs \<and>
         (\<forall>i < length (index svc). index svc' ! i = index svc ! i) \<and>
         (\<forall>p j. j < length (index svc) \<longrightarrow>
            es_doc (es svc') p (str_int (int j)) = es_doc (es svc) p (str_int (int j))) \<and>
         (\<forall>i < length docs.
            encode env (chunk_content (docs ! i)) = Inr (index svc' ! (length (index svc) + i)) \<and>
            es_doc (es svc') (index_name (chunk_platform (docs ! i)))
              (str_int (int (length (index svc) + i))) = Some (document_of (docs ! i)))"
  using assms
proof (induction docs arbitrary: svc)
  case Nil
  then show ?case by simp
next
  case (Cons doc docs)
  from Cons.prems obtain svc1 where step: "index_document env svc doc = (None, svc1)"
    and rest: "index_documents env svc1 docs = (None, svc')"
    by (auto split: prod.splits option.splits)
  let ?n = "length (index svc)"
  from index_document_returned [OF step] obtain v where
    v: "encode env (chunk_content doc) = Inr v" and
    d1: "dimension svc1 = dimension svc" and
    i1: "index svc1 = index svc @ [v]" and
    e1: "\<And>idx doc_id. es_doc (es svc1) idx doc_id =
              (if idx = index_name (chunk_platform doc) \<and> doc_id = str_int (int ?n)
               then Some (document_of doc) else es_doc (es svc) idx doc_id)"
    by blast
  have n1: "length (index svc1) = Suc ?n" by (simp add: i1)
  note IH = Cons.IH [OF rest, unfolded n1 d1]
  have a: "dimension svc' = dimension svc" using IH by simp
  have b: "length (index svc') = ?n + length (doc # docs)" using IH by simp
  have old: "\<forall>i < Suc ?n. index svc' ! i = index svc1 ! i" using IH by simp
  have c: "\<forall>i < ?n. index svc' ! i = index svc ! i"
    using old by (simp add: i1 nth_append)
  have frame: "\<forall>p j. j < Suc ?n \<longrightarrow>
      es_doc (es svc') p (str_int (int j)) = es_doc (es svc1) p (str_int (int j))"
    using IH by simp
  have d: "\<forall>p j. j < ?n \<longrightarrow>
      es_doc (es svc') p (str_int (int j)) = es_doc (es svc) p (str_int (int j))"
  proof (intro allI impI)
    fix p j assume j: "j < ?n"
    then have "str_int (int j) \<noteq> str_int (int ?n)" using str_int_nat_inj [of j ?n] by auto
    with j frame show "es_doc (es svc') p (str_int (int j)) = es_doc (es svc) p (str_int (int j))"
      by (simp add: e1)
  qed
  have e: "\<forall>i < length (doc # docs).
            encode env (chunk_content ((doc # docs) ! i)) = Inr (index svc' ! (?n + i)) \<and>
            es_doc (es svc') (index_name (chunk_platform ((doc # docs) ! i)))
              (str_int (int (?n + i))) = Some (document_of ((doc # docs) ! i))"
  proof (intro allI impI)
    fix i assume i: "i < length (doc # docs)"
    show "encode env (chunk_content ((doc # docs) ! i)) = Inr (index svc' ! (?n + i)) \<and>
            es_doc (es svc') (index_name (chunk_platform ((doc # docs) ! i)))
              (str_int (int (?n + i))) = Some (document_of ((doc # docs) ! i))"
    proof (cases i)
      case 0
      have "index svc' ! ?n = v" using old by (simp add: i1)
      moreover have "es_doc (es svc') (index_name (chunk_platform doc)) (str_int (int ?n)) =
          Some (document_of doc)"
        using frame by (simp add: e1)
      ultimately show ?thesis using 0 v by simp
    next
      case (Suc i')
      with i have "i' < length docs" by simp
      with IH Suc show ?thesis by simp
    qed
  qed
  from a b c d e show ?case by blast
qed

subsection \<open>The concrete services\<close>

lemmas name_eval = index_name_def lower_def lower_char_def str_int_def str_nat.simps
  digit_char_def

lemma segment_service_indexed:
  "index_document env_up (new_service 1) segment_chunk = (None, segment_service)"
  by (simp add: index_document_def env_up_def new_service_def segment_chunk_def index_add_def
      Let_def es_index_def segment_service_def name_eval)

lemma two_platform_service_indexed:
  "index_documents env_up (new_service 1) [segment_chunk, lytics_chunk] =
     (None, two_platform_service)"
  by (simp add: index_document_def env_up_def new_service_def segment_chunk_def
      lytics_chunk_def index_add_def Let_def es_index_def two_platform_service_def name_eval)

lemma orphan_service_left:
  "index_document env_es_down (new_service 1) segment_chunk =
     (Some (UpstreamError ''elasticsearch''), orphan_service)"
  by (simp add: index_document_def env_es_down_def new_service_def segment_chunk_def
      index_add_def Let_def es_index_def orphan_service_def)

lemma one_vector_hits:
  "index_search 1 [[37]] [12] 3 = Inr [(0, 625), (- 1, FLT_MAX), (- 1, FLT_MAX)]"
  by (simp add: index_search_def l2_sqr_def numeral_eq_Suc FLT_MAX_def)

lemma segment_service_hits:
  "index_search 1 (index segment_service) [12] 3 =
     Inr [(0, 625), (- 1, FLT_MAX), (- 1, FLT_MAX)]"
  using one_vector_hits by (simp add: segment_service_def)

lemma two_platform_service_hits:
  "index_search 1 (index two_platform_service) [12] 3 =
     Inr [(1, 400), (0, 625), (- 1, FLT_MAX)]"
  by (simp add: index_search_def l2_sqr_def numeral_eq_Suc FLT_MAX_def two_platform_service_def)

lemma lytics_lookup:
  "es_doc (es segment_service) (index_name ''Lytics'') (str_int 0) = None"
  by (simp add: segment_service_def es_doc_def name_eval)

lemma segment_lookup_one:
  "es_doc (es two_platform_service) (index_name ''Segment'') (str_int 1) = None"
  by (simp add: two_platform_service_def es_doc_def name_eval)

lemma similarity_625: "similarity 625 = 3430485 / 2 ^ 31"
  by (simp add: similarity_def fl32_eval)

lemma segment_semantic:
  "semantic_search segment_service [12] ''Segment'' 3 =
     Inr [\<lparr>content = ''Go to Settings > Sources > Add Source'', platform = ''Segment'',
           score = 3430485 / 2 ^ 31, doc_type = ''general'', section_label = None\<rparr>]"
  using segment_service_hits similarity_625
  by (simp add: semantic_search_def segment_service_def es_get_def es_doc_def name_eval
      document_of_def segment_chunk_def)

section \<open>The claims\<close>

subsection \<open>C1: a stale pointer on the semantic path\<close>

text \<open>
  C1 as stated: when the vector index returns a position \<open>P\<close> and the document store has
  no entry under \<^verbatim>\<open>str(P)\<close> in the platform's partition, the retrieval omits \<open>P\<close>
  and completes without an error. It fails: one chunk indexed under Segment, then a
  search under Lytics. The index is shared by all platforms and returns position 0; the
  partition \<^verbatim>\<open>lytics_docs\<close> has no document \<^verbatim>\<open>0\<close>; the search raises.
\<close>

theorem stale_pointer_counterexample:
  "index_document env_up (new_service 1) segment_chunk = (None, segment_service) \<and>
   index_search 1 (index segment_service) [12] 3 =
     Inr [(0, 625), (- 1, FLT_MAX), (- 1, FLT_MAX)] \<and>
   es_doc (es segment_service) (index_name ''Lytics'') (str_int 0) = None \<and>
   search env_up segment_service ''add a source'' ''Lytics'' 3 = Inl NotFoundError"
proof -
  have "search env_up segment_service ''add a source'' ''Lytics'' 3 = Inl NotFoundError"
    using segment_service_hits lytics_lookup
    by (simp add: search_def semantic_search_def env_up_def segment_service_def es_get_def)
  then show ?thesis
    using segment_service_indexed segment_service_hits lytics_lookup by simp
qed

text \<open>
  C1, amended: when the encoder has returned and the vector index returns a position
  \<open>P\<close> other than the sentinel \<open>-1\<close> for which the store has no entry under
  \<^verbatim>\<open>str(P)\<close> in the platform's partition, \<^verbatim>\<open>es.get\<close> raises \<open>NotFoundError\<close>,
  the semantic search raises it, and so does \<^verbatim>\<open>search\<close>: no result list is returned.
\<close>

theorem stale_pointer_raises:
  assumes "encode env query = Inr qe"
    and "index_search (dimension svc) (index svc) qe top_k = Inr hits"
    and "(P, dst) \<in> set hits" and "P \<noteq> - 1"
    and "es_doc (es svc) (index_name plat) (str_int P) = None"
  shows "semantic_search svc qe plat top_k = Inl NotFoundError \<and>
         search env svc query plat top_k = Inl NotFoundError"
  using assms semantic_loop_stale [of P dst hits "es svc" plat]
  by (simp add: search_def semantic_search_def)

text \<open>
  The amended C1 at the search under Lytics.
\<close>

theorem stale_pointer_raises_witness:
  "encode env_up ''add a source'' = Inr [12] \<and>
   index_search (dimension segment_service) (index segment_service) [12] 3 =
     Inr [(0, 625), (- 1, FLT_MAX), (- 1, FLT_MAX)] \<and>
   es_doc (es segment_service) (index_name ''Lytics'') (str_int 0) = None \<and>
   semantic_search segment_service [12] ''Lytics'' 3 = Inl NotFoundError \<and>
   search env_up segment_service ''add a source'' ''Lytics'' 3 = Inl NotFoundError"
proof -
  have enc: "encode env_up ''add a source'' = Inr [12]" by (simp add: env_up_def)
  have hits: "index_search (dimension segment_service) (index segment_service) [12] 3 =
     Inr [(0, 625), (- 1, FLT_MAX), (- 1, FLT_MAX)]"
    using segment_service_hits by (simp add: segment_service_def)
  have mem: "(0, 625) \<in> set [(0, 625), (- 1, FLT_MAX), (- 1, FLT_MAX)]" by simp
  have "semantic_search segment_service [12] ''Lytics'' 3 = Inl NotFoundError \<and>
        search env_up segment_service ''add a source'' ''Lytics'' 3 = Inl NotFoundError"
    using stale_pointer_raises [OF enc hits mem _ lytics_lookup] by simp
  with enc hits lytics_lookup show ?thesis by simp
qed

subsection \<open>C2: one entry per content\<close>

text \<open>
  C2 as stated: for a semantic result and a keyword result with the same content, the
  fused list has exactly one entry for the content, and that entry's score is
  \<open>s.score \<times> w + r.score \<times> (1 - w)\<close>. It fails on the score: the list holds the
  semantic result as it came, with score \<open>1/2\<close>, where the claim says \<open>7/4\<close>.
\<close>

theorem dedup_score_counterexample:
  "combine_search_results [sem_a] [kw_a] (1 / 2) = [sem_a] \<and>
   score sem_a = 1 / 2 \<and>
   score sem_a * (1 / 2) + score kw_a * (1 - 1 / 2) = 7 / 4"
  by (simp add: fusion_defs example_defs)

text \<open>
  C2, amended: for a semantic result \<open>s\<close> and a keyword result \<open>r\<close> with the same
  content, the fused list has exactly one entry for that content: the last semantic
  result with that content, returned as it is. The accumulated score that ranks it is
  that result's score times \<open>w\<close> plus the sum of the scores of the keyword results
  with that content times \<open>1 - w\<close>; it is \<open>s.score \<times> w + r.score \<times> (1 - w)\<close> when
  \<open>s\<close> and \<open>r\<close> are the only results with that content.
\<close>

theorem dedup_one_entry:
  assumes "s \<in> set sem" and "r \<in> set kws"
    and "content s = content r"
  shows "filter (\<lambda>x. content x = content s)
           (combine_search_results sem kws w) =
         [last (filter (\<lambda>x. content x = content s) sem)] \<and>
       accumulated sem kws w (content s) =
         Some (score (last (filter (\<lambda>x. content x = content s) sem)) * w +
               sum_list (map score (filter (\<lambda>x. content x = content s) kws)) * (1 - w)) \<and>
       (filter (\<lambda>x. content x = content s) sem = [s] \<and>
        filter (\<lambda>x. content x = content s) kws = [r] \<longrightarrow>
        accumulated sem kws w (content s) =
          Some (score s * w + score r * (1 - w)))"
proof -
  from assms(1) have ne: "filter (\<lambda>x. content x = content s) sem \<noteq> []"
    by (auto simp: filter_empty_conv)
  note m = map_of_combined_scores_semantic [OF ne, of kws w]
  show ?thesis
    by (simp add: filter_combine_content accumulated_def m)
qed

text \<open>
  The amended C2 on one semantic and two keyword results.
\<close>

theorem dedup_one_entry_witness:
  "sem_a \<in> set [sem_a] \<and> kw_a \<in> set [kw_a, kw_b] \<and> content sem_a = content kw_a \<and>
   filter (\<lambda>x. content x = content sem_a) (combine_search_results [sem_a] [kw_a, kw_b] (1 / 2)) =
     [sem_a] \<and>
   accumulated [sem_a] [kw_a, kw_b] (1 / 2) (content sem_a) = Some (7 / 4)"
proof -
  have a: "sem_a \<in> set [sem_a]" and b: "kw_a \<in> set [kw_a, kw_b]"
    and c: "content sem_a = content kw_a"
    by (simp_all add: example_defs)
  from dedup_one_entry [OF a b c, of "1 / 2"] a b c show ?thesis
    by (simp add: example_defs)
qed

subsection \<open>C3: distance to similarity\<close>

text \<open>
  C3 as stated: for every distance \<open>d \<ge> 0\<close> the score is exactly \<open>1 / (1 + d)\<close>, it
  lies in \<open>(0, 1]\<close>, it is 1 only when \<open>d = 0\<close>, and it is strictly decreasing in
  \<open>d\<close>. The score is computed in float32, and three of the four fail there: at
  \<open>d = 1 / 2 ^ 40\<close> the score is 1; at \<open>d = 1\<close> and at the next float above 1 the score is
  the same; at \<open>d = 625\<close> the score is not \<open>1 / 626\<close>.
\<close>

theorem similarity_counterexample:
  "similarity (1 / 2 ^ 40) = 1 \<and>
   similarity 1 = 1 / 2 \<and> similarity (1 + 1 / 2 ^ 23) = 1 / 2 \<and>
   similarity 625 = 3430485 / 2 ^ 31 \<and> similarity 625 \<noteq> 1 / (1 + 625)"
  by (simp add: similarity_def fl32_eval)

text \<open>
  C3, amended: every result of the semantic path carries the score of its hit's
  distance \<open>d\<close>, and the distances that the index returns with a position are not
  negative and below \<open>FLT_MAX\<close>. The score is the float32 quotient of 1 and the float32
  sum \<open>1 + d\<close>; for every such \<open>d\<close> it differs from \<open>1 / (1 + d)\<close> by at most
  \<open>1 / 2 ^ 23\<close>, lies in \<open>(0, 1]\<close>, and does not increase when \<open>d\<close> grows; it is 1 at
  \<open>d = 0\<close> and for every \<open>d\<close> up to \<open>1 / 2 ^ 24\<close>, and below 1 from \<open>d = 1 / 2 ^ 23\<close> on.
\<close>

theorem similarity_conversion:
  "(semantic_loop store plat hits = Inr results \<longrightarrow>
      map score results =
        map (\<lambda>hit. similarity (snd hit)) (filter (\<lambda>hit. fst hit \<noteq> - 1) hits)) \<and>
   (index_search vdim vecs q k = Inr hits \<longrightarrow> (i, dst) \<in> set hits \<longrightarrow> i \<noteq> - 1 \<longrightarrow>
      0 \<le> dst \<and> dst < FLT_MAX) \<and>
   similarity d = fl32 (1 / fl32 (1 + d)) \<and>
   (0 \<le> d \<longrightarrow> d < FLT_MAX \<longrightarrow>
      \<bar>similarity d - 1 / (1 + d)\<bar> \<le> 1 / 2 ^ 23 \<and>
      0 < similarity d \<and> similarity d \<le> 1 \<and>
      (\<forall>d'. d \<le> d' \<longrightarrow> d' < FLT_MAX \<longrightarrow> similarity d' \<le> similarity d)) \<and>
   similarity 0 = 1 \<and>
   (0 \<le> d \<longrightarrow> d \<le> 1 / 2 ^ 24 \<longrightarrow> similarity d = 1) \<and>
   (1 / 2 ^ 23 \<le> d \<longrightarrow> d < FLT_MAX \<longrightarrow> similarity d < 1)"
  using semantic_loop_scores [of store plat hits results]
    index_search_distance [of vdim vecs q k hits i dst]
    similarity_error [of d] similarity_range [of d] similarity_antimono [of d]
    similarity_zero similarity_one_below [of d] similarity_below_one [of d]
  by (simp add: similarity_def)

text \<open>
  The amended C3 at the search under Segment on the concrete service: distance 625,
  score \<open>3430485 / 2 ^ 31\<close>, within \<open>1 / 2 ^ 23\<close> of \<open>1 / 626\<close>.
\<close>

theorem similarity_conversion_witness:
  "semantic_search segment_service [12] ''Segment'' 3 =
     Inr [\<lparr>content = ''Go to Settings > Sources > Add Source'', platform = ''Segment'',
           score = 3430485 / 2 ^ 31, doc_type = ''general'', section_label = None\<rparr>] \<and>
   similarity 625 = 3430485 / 2 ^ 31 \<and>
   \<bar>similarity 625 - 1 / (1 + 625)\<bar> \<le> 1 / 2 ^ 23 \<and>
   0 < similarity 625 \<and> similarity 625 \<le> 1"
proof -
  have r: "(0::real) \<le> 625" "(625::real) < FLT_MAX" by (simp_all add: FLT_MAX_def)
  from similarity_conversion [of "es segment_service" "''Segment''"
      "[(0, 625), (- 1, FLT_MAX), (- 1, FLT_MAX)]" _ 1 "index segment_service" "[12]" 3 0 625 625] r
  have "\<bar>similarity 625 - 1 / (1 + 625)\<bar> \<le> 1 / 2 ^ 23 \<and>
        0 < similarity 625 \<and> similarity 625 \<le> 1" by blast
  with segment_semantic similarity_625 show ?thesis by simp
qed

subsection \<open>C4: the weights 1 and 0\<close>

text \<open>
  C4 as stated: with \<open>semantic_weight = 1\<close> the fused ranking equals the semantic-only
  ranking, with \<open>semantic_weight = 0\<close> the keyword-only ranking. It fails: a result of
  the other path is kept with accumulated score 0, so a keyword result is returned under
  weight 1 where the semantic-only ranking is empty, and a semantic result is returned
  under weight 0 where the keyword-only ranking is empty.
\<close>

theorem fusion_weight_counterexample:
  "combine_search_results [] [kw_b] 1 = [kw_b] \<and> combine_search_results [] [] 1 = [] \<and>
   combine_search_results [sem_a] [] 0 = [sem_a] \<and> combine_search_results [] [] 0 = []"
  by (simp add: fusion_defs example_defs)

text \<open>
  C4, amended. With \<open>semantic_weight = 1\<close> every keyword contribution is zero: a content
  of the semantic list accumulates what it accumulates without the keyword list, a
  keyword-only content accumulates 0 and is still returned, and the fused list without
  the keyword-only entries is the semantic-only ranking. With \<open>semantic_weight = 0\<close>
  every semantic contribution is zero: a content of the keyword list accumulates what it
  accumulates without the semantic list, a semantic-only content accumulates 0 and is
  still returned, and when the two lists have no content in common the fused list
  without the semantic-only entries is the keyword-only ranking.
\<close>

theorem fusion_weight_law:
  "filter (\<lambda>x. content x \<in> content ` set s) (combine_search_results s k 1) =
     combine_search_results s [] 1 \<and>
   (\<forall>c. accumulated s k 1 c =
     (if c \<in> content ` set s then accumulated s [] 1 c
      else if c \<in> content ` set k then Some 0 else None)) \<and>
   (\<forall>c. accumulated s k 0 c =
     (if c \<in> content ` set k then accumulated [] k 0 c
      else if c \<in> content ` set s then Some 0 else None)) \<and>
   (content ` set s \<inter> content ` set k = {} \<longrightarrow>
     filter (\<lambda>x. content x \<in> content ` set k) (combine_search_results s k 0) =
     combine_search_results [] k 0)"
  using semantic_weight_one_ranking [of s k] accumulated_weight_one [of s k]
    accumulated_weight_zero [of s k] disjoint_keyword_ranking [of s k 0]
  by simp

text \<open>
  The amended C4 on one semantic and two keyword results without a common content.
\<close>

theorem fusion_weight_law_witness:
  "content ` set [sem_a] \<inter> content ` set [kw_c, kw_b] = {} \<and>
   filter (\<lambda>x. content x \<in> content ` set [sem_a]) (combine_search_results [sem_a] [kw_c, kw_b] 1) =
     [sem_a] \<and>
   filter (\<lambda>x. content x \<in> content ` set [kw_c, kw_b])
     (combine_search_results [sem_a] [kw_c, kw_b] 0) = [kw_b, kw_c]"
proof -
  have d: "content ` set [sem_a] \<inter> content ` set [kw_c, kw_b] = {}"
    by (simp add: example_defs)
  have s: "combine_search_results [sem_a] [] 1 = [sem_a]"
    and k: "combine_search_results [] [kw_c, kw_b] 0 = [kw_b, kw_c]"
    by (simp_all add: fusion_defs example_defs)
  from fusion_weight_law [of "[sem_a]" "[kw_c, kw_b]"] d s k show ?thesis
    by (simp only:) 
qed

subsection \<open>C5: the order of the fused list\<close>

text \<open>
  C5: the fused list is a function of the two lists and the weight. It is the list of
  the results of the entries sorted by accumulated score, descending; entries with the
  same accumulated score keep their insertion order; and the insertion order is the
  contents of the semantic list by first occurrence, then the contents that only the
  keyword list has, by first occurrence.
\<close>

theorem fusion_order:
  "combine_search_results s k w = map fst (sorted_results s k w) \<and>
   sorted_wrt (\<lambda>a b. snd b \<le> snd a) (sorted_results s k w) \<and>
   (\<forall>v. filter (\<lambda>x. snd x = v) (sorted_results s k w) =
        filter (\<lambda>x. snd x = v) (map snd (combined_scores s k w))) \<and>
   map fst (combined_scores s k w) =
     first_occurrences (map content s) @
     filter (\<lambda>c. c \<notin> content ` set s) (first_occurrences (map content k))"
  using sorted_results_descending [of s k w] sorted_results_stable [of _ s k w]
    keys_combined_scores [of s k w]
  by (simp add: combine_search_results_def first_occurrences_append)

text \<open>
  C5 on a tie: \<open>sem_a\<close> and \<open>kw_c\<close> both accumulate 1/4, the semantic one comes first.
\<close>

theorem fusion_order_witness:
  "combine_search_results [sem_a] [kw_c, kw_b] (1 / 2) = [kw_b, sem_a, kw_c] \<and>
   sorted_results [sem_a] [kw_c, kw_b] (1 / 2) = [(kw_b, 1), (sem_a, 1 / 4), (kw_c, 1 / 4)]"
proof -
  have "sorted_results [sem_a] [kw_c, kw_b] (1 / 2) = [(kw_b, 1), (sem_a, 1 / 4), (kw_c, 1 / 4)]"
    by (simp add: fusion_defs example_defs)
  with fusion_order [of "[sem_a]" "[kw_c, kw_b]" "1 / 2"] show ?thesis by simp
qed

subsection \<open>C6: positions and document ids\<close>

text \<open>
  C6 as stated: from an empty service, \<open>N\<close> sequential calls of \<^verbatim>\<open>index_document\<close>
  store their vectors at the positions \<open>0..N-1\<close>, the \<open>i\<close>-th document is written under
  \<^verbatim>\<open>str(i)\<close> in its platform's partition, and so every id that the vector index can
  return has a corresponding document entry. It fails in two ways. A call in which
  \<^verbatim>\<open>es.index\<close> raises has already added its vector: position 0 is returned by the
  index and the store is empty. And after two calls that return, for a Segment and a
  Lytics chunk, the index returns position 1 to a search under Segment, where the
  partition \<^verbatim>\<open>segment_docs\<close> has no document \<^verbatim>\<open>1\<close>: the entry is in the partition of
  the chunk's platform, not in the one that the search reads.
\<close>

theorem positional_consistency_counterexample:
  "index_document env_es_down (new_service 1) segment_chunk =
     (Some (UpstreamError ''elasticsearch''), orphan_service) \<and>
   index_search 1 (index orphan_service) [12] 3 =
     Inr [(0, 625), (- 1, FLT_MAX), (- 1, FLT_MAX)] \<and>
   es orphan_service = Map.empty \<and>
   index_documents env_up (new_service 1) [segment_chunk, lytics_chunk] =
     (None, two_platform_service) \<and>
   index_search 1 (index two_platform_service) [12] 3 =
     Inr [(1, 400), (0, 625), (- 1, FLT_MAX)] \<and>
   es_doc (es two_platform_service) (index_name ''Segment'') (str_int 1) = None \<and>
   search env_up two_platform_service ''add a source'' ''Segment'' 3 = Inl NotFoundError"
proof -
  have "index_search 1 (index orphan_service) [12] 3 =
     Inr [(0, 625), (- 1, FLT_MAX), (- 1, FLT_MAX)]"
    using one_vector_hits by (simp add: orphan_service_def)
  moreover have "es orphan_service = Map.empty" by (simp add: orphan_service_def)
  moreover have "semantic_loop (es two_platform_service) ''Segment''
      [(1, 400), (0, 625), (- 1, FLT_MAX)] = Inl NotFoundError"
    using segment_lookup_one by (simp add: es_get_def)
  then have "search env_up two_platform_service ''add a source'' ''Segment'' 3 =
      Inl NotFoundError"
    using two_platform_service_hits
    by (simp add: search_def semantic_search_def env_up_def two_platform_service_def)
  ultimately show ?thesis
    using orphan_service_left two_platform_service_indexed two_platform_service_hits
      segment_lookup_one
    by simp
qed

text \<open>
  C6, amended: from an empty service, \<open>N\<close> sequential calls of \<^verbatim>\<open>index_document\<close>
  return when every embedding has the index's dimension and no write to Elasticsearch
  raises. When they have returned, the \<open>i\<close>-th vector is the embedding of the \<open>i\<close>-th
  chunk, at position \<open>i\<close>; the store holds under \<^verbatim>\<open>str(i)\<close>, in the partition
  \<^verbatim>\<open>lower(platform)_docs\<close> of the \<open>i\<close>-th chunk's own platform, a document with that
  chunk's content, lowered platform, type, section, title and url; and every position
  that a search of the index returns is the id of such a document in the partition of
  that document's platform, which need not be the partition that the search reads. (A
  call in which the write raises leaves its vector without a document.)
\<close>

theorem positional_consistency:
  "((\<forall>doc \<in> set docs. \<exists>v. encode env (chunk_content doc) = Inr v \<and> length v = vdim) \<and>
    (\<forall>idx doc_id. es_write_error env idx doc_id = None) \<longrightarrow>
    fst (index_documents env (new_service vdim) docs) = None) \<and>
   (index_documents env (new_service vdim) docs = (None, svc) \<longrightarrow>
      length (index svc) = length docs \<and>
      (\<forall>i < length docs.
         encode env (chunk_content (docs ! i)) = Inr (index svc ! i) \<and>
         (\<exists>src. es_doc (es svc) (lower (chunk_platform (docs ! i)) @ ''_docs'')
                  (str_int (int i)) = Some src \<and>
            src_content src = chunk_content (docs ! i) \<and>
            src_platform src = lower (chunk_platform (docs ! i)) \<and>
            src_doc_type src = chunk_doc_type (docs ! i) \<and>
            src_section src = chunk_section (docs ! i) \<and>
            src_title src = chunk_title (docs ! i) \<and>
            src_url src = chunk_url (docs ! i))) \<and>
      (\<forall>q k hits i dst.
         index_search (dimension svc) (index svc) q k = Inr hits \<longrightarrow>
         (i, dst) \<in> set hits \<longrightarrow> i \<noteq> - 1 \<longrightarrow>
         (\<exists>j < length docs. i = int j \<and>
            (\<exists>src. es_doc (es svc) (lower (chunk_platform (docs ! j)) @ ''_docs'')
                     (str_int i) = Some src \<and>
               src_content src = chunk_content (docs ! j)))))"
proof (intro conjI impI)
  assume "(\<forall>doc \<in> set docs. \<exists>v. encode env (chunk_content doc) = Inr v \<and> length v = vdim) \<and>
    (\<forall>idx doc_id. es_write_error env idx doc_id = None)"
  then show "fst (index_documents env (new_service vdim) docs) = None"
    using index_documents_returns [of docs env "new_service vdim"]
    by (simp add: new_service_def)
next
  assume run: "index_documents env (new_service vdim) docs = (None, svc)"
  note inv = index_documents_positions [OF run]
  show len: "length (index svc) = length docs"
    using inv by (simp add: new_service_def)
  have stored: "\<forall>i < length docs.
         encode env (chunk_content (docs ! i)) = Inr (index svc ! i) \<and>
         es_doc (es svc) (index_name (chunk_platform (docs ! i))) (str_int (int i)) =
           Some (document_of (docs ! i))"
    using inv by (simp add: new_service_def)
  show fields: "\<forall>i < length docs.
         encode env (chunk_content (docs ! i)) = Inr (index svc ! i) \<and>
         (\<exists>src. es_doc (es svc) (lower (chunk_platform (docs ! i)) @ ''_docs'')
                  (str_int (int i)) = Some src \<and>
            src_content src = chunk_content (docs ! i) \<and>
            src_platform src = lower (chunk_platform (docs ! i)) \<and>
            src_doc_type src = chunk_doc_type (docs ! i) \<and>
            src_section src = chunk_section (docs ! i) \<and>
            src_title src = chunk_title (docs ! i) \<and>
            src_url src = chunk_url (docs ! i))"
    using stored by (simp add: index_name_def document_of_def)
  show "\<forall>q k hits i dst.
         index_search (dimension svc) (index svc) q k = Inr hits \<longrightarrow>
         (i, dst) \<in> set hits \<longrightarrow> i \<noteq> - 1 \<longrightarrow>
         (\<exists>j < length docs. i = int j \<and>
            (\<exists>src. es_doc (es svc) (lower (chunk_platform (docs ! j)) @ ''_docs'')
                     (str_int i) = Some src \<and>
               src_content src = chunk_content (docs ! j)))"
  proof (intro allI impI)
    fix q k hits i dst
    assume "index_search (dimension svc) (index svc) q k = Inr hits"
      and "(i, dst) \<in> set hits" and "i \<noteq> - 1"
    with index_search_labels [of "dimension svc" "index svc" q k hits i dst]
    obtain j where j: "j < length (index svc)" "i = int j" by auto
    with len fields
    have "\<exists>src. es_doc (es svc) (lower (chunk_platform (docs ! j)) @ ''_docs'')
                     (str_int (int j)) = Some src \<and>
               src_content src = chunk_content (docs ! j)"
      by auto
    with j len show "\<exists>j < length docs. i = int j \<and>
            (\<exists>src. es_doc (es svc) (lower (chunk_platform (docs ! j)) @ ''_docs'')
                     (str_int i) = Some src \<and>
               src_content src = chunk_content (docs ! j))"
      by auto
  qed
qed

text \<open>
  The amended C6 on two chunks of two platforms: the vectors, and the two documents
  under the ids \<^verbatim>\<open>0\<close> and \<^verbatim>\<open>1\<close> in \<^verbatim>\<open>segment_docs\<close> and \<^verbatim>\<open>lytics_docs\<close>.
\<close>

theorem positional_consistency_witness:
  "index_documents env_up (new_service 1) [segment_chunk, lytics_chunk] =
     (None, two_platform_service) \<and>
   index two_platform_service = [[37], [32]] \<and>
   es_doc (es two_platform_service) ''segment_docs'' ''0'' =
     Some \<lparr>src_content = ''Go to Settings > Sources > Add Source'', src_platform = ''segment'',
            src_doc_type = ''general'', src_section = None, src_title = None,
            src_url = None\<rparr> \<and>
   es_doc (es two_platform_service) ''lytics_docs'' ''1'' =
     Some \<lparr>src_content = ''Track events with the Lytics tag'', src_platform = ''lytics'',
            src_doc_type = ''general'', src_section = None, src_title = None,
            src_url = None\<rparr> \<and>
   length (index two_platform_service) = 2 \<and>
   encode env_up ''Track events with the Lytics tag'' = Inr (index two_platform_service ! 1)"
proof -
  note run = two_platform_service_indexed
  from positional_consistency [of "[segment_chunk, lytics_chunk]" env_up 1 two_platform_service]
    run
  have len: "length (index two_platform_service) = length [segment_chunk, lytics_chunk]"
    and st: "\<forall>i < length [segment_chunk, lytics_chunk].
         encode env_up (chunk_content ([segment_chunk, lytics_chunk] ! i)) =
           Inr (index two_platform_service ! i) \<and>
         (\<exists>src. es_doc (es two_platform_service)
                  (lower (chunk_platform ([segment_chunk, lytics_chunk] ! i)) @ ''_docs'')
                  (str_int (int i)) = Some src \<and>
            src_content src = chunk_content ([segment_chunk, lytics_chunk] ! i) \<and>
            src_platform src = lower (chunk_platform ([segment_chunk, lytics_chunk] ! i)) \<and>
            src_doc_type src = chunk_doc_type ([segment_chunk, lytics_chunk] ! i) \<and>
            src_section src = chunk_section ([segment_chunk, lytics_chunk] ! i) \<and>
            src_title src = chunk_title ([segment_chunk, lytics_chunk] ! i) \<and>
            src_url src = chunk_url ([segment_chunk, lytics_chunk] ! i))"
    by blast+
  from st [rule_format, of 1]
  have enc: "encode env_up ''Track events with the Lytics tag'' =
      Inr (index two_platform_service ! 1)"
    by (simp add: lytics_chunk_def)
  have "index two_platform_service = [[37], [32]]" by (simp add: two_platform_service_def)
  moreover have "es_doc (es two_platform_service) ''segment_docs'' ''0'' =
     Some \<lparr>src_content = ''Go to Settings > Sources > Add Source'', src_platform = ''segment'',
            src_doc_type = ''general'', src_section = None, src_title = None,
            src_url = None\<rparr>"
    by (simp add: two_platform_service_def es_doc_def document_of_def segment_chunk_def
        lower_def lower_char_def)
  moreover have "es_doc (es two_platform_service) ''lytics_docs'' ''1'' =
     Some \<lparr>src_content = ''Track events with the Lytics tag'', src_platform = ''lytics'',
            src_doc_type = ''general'', src_section = None, src_title = None,
            src_url = None\<rparr>"
    by (simp add: two_platform_service_def es_doc_def document_of_def lytics_chunk_def
        lower_def lower_char_def)
  ultimately show ?thesis using run len enc by simp
qed

subsection \<open>C7: the empty service\<close>




subsection \<open>C8: an exception of a stage is the exception of the search\<close>

text \<open>
  C8: what the encoder raises, what the semantic search raises, and what the keyword
  search raises is what \<^verbatim>\<open>search\<close> raises; a result list is returned only when all
  three have returned, and it is then the fusion of the two complete lists.
\<close>

theorem hard_failure_propagation:
  "(encode env query = Inl e \<longrightarrow> search env svc query plat top_k = Inl e) \<and>
   (encode env query = Inr qe \<longrightarrow> semantic_search svc qe plat top_k = Inl e \<longrightarrow>
      search env svc query plat top_k = Inl e) \<and>
   (encode env query = Inr qe \<longrightarrow> semantic_search svc qe plat top_k = Inr sem \<longrightarrow>
      keyword_search env svc query plat top_k = Inl e \<longrightarrow>
      search env svc query plat top_k = Inl e) \<and>
   (search env svc query plat top_k = Inr results \<longrightarrow>
      (\<exists>qe' sem' kw'. encode env query = Inr qe' \<and>
         semantic_search svc qe' plat top_k = Inr sem' \<and>
         keyword_search env svc query plat top_k = Inr kw' \<and>
         results = combine_search_results sem' kw' (1 / 2)))"
  by (auto simp: search_def split: sum.splits)

text \<open>
  C8 with the encoder down, with a stale pointer on the semantic path, and with Elasticsearch down.
\<close>

theorem hard_failure_propagation_witness:
  "search env_encoder_down segment_service ''add a source'' ''Segment'' 3 =
     Inl (UpstreamError ''encoder'') \<and>
   search env_up segment_service ''add a source'' ''Lytics'' 3 = Inl NotFoundError \<and>
   search env_es_down segment_service ''add a source'' ''Segment'' 3 =
     Inl (UpstreamError ''elasticsearch'')"
proof -
  have a: "encode env_encoder_down ''add a source'' = Inl (UpstreamError ''encoder'')"
    by (simp add: env_encoder_down_def)
  have b: "encode env_up ''add a source'' = Inr [12]" by (simp add: env_up_def)
  have b': "semantic_search segment_service [12] ''Lytics'' 3 = Inl NotFoundError"
    using segment_service_hits lytics_lookup
    by (simp add: semantic_search_def segment_service_def es_get_def)
  have c: "encode env_es_down ''add a source'' = Inr [12]" by (simp add: env_es_down_def)
  have c': "keyword_search env_es_down segment_service ''add a source'' ''Segment'' 3 =
      Inl (UpstreamError ''elasticsearch'')"
    by (simp add: keyword_search_def es_search_def env_es_down_def segment_service_def
        index_name_def lower_def lower_char_def)
  from hard_failure_propagation
         [of env_encoder_down "''add a source''" "UpstreamError ''encoder''" segment_service
             "''Segment''" 3] a
  have 1: "search env_encoder_down segment_service ''add a source'' ''Segment'' 3 =
     Inl (UpstreamError ''encoder'')" by blast
  from hard_failure_propagation
         [of env_up "''add a source''" NotFoundError segment_service "''Lytics''" 3 "[12]"] b b'
  have 2: "search env_up segment_service ''add a source'' ''Lytics'' 3 = Inl NotFoundError"
    by blast
  from hard_failure_propagation
         [of env_es_down "''add a source''" "UpstreamError ''elasticsearch''" segment_service
             "''Segment''" 3 "[12]"] c c' segment_semantic
  have 3: "search env_es_down segment_service ''add a source'' ''Segment'' 3 =
     Inl (UpstreamError ''elasticsearch'')" by blast
  from 1 2 3 show ?thesis by simp
qed

subsection \<open>C9: the order of the two sub-searches\<close>

text \<open>
  C9 says that the two sub-searches run concurrently. The program awaits the semantic
  search before it calls the keyword search: on the concrete service the query to
  Elasticsearch is the last call, after the \<^verbatim>\<open>get\<close> of the semantic path has returned,
  and when the semantic path raises (the search under Lytics) the query is never made.
\<close>

theorem sequential_sub_searches:
  "search_calls env_up segment_service ''add a source'' ''Segment'' 3 =
     [Encode ''add a source'', IndexSearch 3, EsGet ''segment_docs'' ''0'',
      EsSearch ''segment_docs'' ''add a source'' 3] \<and>
   search_calls env_up segment_service ''add a source'' ''Lytics'' 3 =
     [Encode ''add a source'', IndexSearch 3, EsGet ''lytics_docs'' ''0'']"
  using segment_service_hits
  by (simp add: search_calls_def env_up_def segment_service_def es_get_def es_doc_def
      name_eval)

subsection \<open>C10: the results are returned as they came\<close>

text \<open>
  C10: every result in the fused list is one of the results of the two lists, with all
  its fields and its own score; the weight, and with it the accumulated scores, decides
  the order only: for two weights the fused lists are permutations of each other.
\<close>

theorem combine_returns_inputs:
  "set (combine_search_results s k w) \<subseteq> set s \<union> set k \<and>
   mset (combine_search_results s k w) = mset (combine_search_results s k w')"
  using results_combined_scores [of s k w] stored_combined_scores [of s k w w']
  by (simp add: set_combine mset_combine)

text \<open>
  C10 on one semantic and two keyword results, under three weights.
\<close>

theorem combine_returns_inputs_witness:
  "set (combine_search_results [sem_a] [kw_a, kw_b] (1 / 2)) \<subseteq> {sem_a, kw_a, kw_b} \<and>
   combine_search_results [sem_a] [kw_a, kw_b] (1 / 2) = [sem_a, kw_b] \<and>
   combine_search_results [sem_a] [kw_a, kw_b] 1 = [sem_a, kw_b] \<and>
   combine_search_results [sem_a] [kw_a, kw_b] 0 = [sem_a, kw_b]"
  using combine_returns_inputs [of "[sem_a]" "[kw_a, kw_b]" "1 / 2"]
  by (simp add: fusion_defs example_defs)

end
